theory Spec2Isabelle
  imports Main
begin

section \<open>JavaScript values and \<open>JSON.stringify\<close>\<close>

text \<open>
  The hook \<open>useApi\<close> of \<open>src/hooks/useApi.js\<close> receives a URL (a string) and fetch
  options (an object). The values of the model are \<open>undefined\<close>, \<open>null\<close>, booleans,
  numbers, BigInts, strings, arrays and objects. An object is the list of its own
  enumerable properties in enumeration order, with pairwise distinct keys. A value is a
  finite tree; \<open>JCycle\<close> stands, inside an object or an array, for a reference back to an
  object or array that encloses it, which makes the structure circular.

  A number is a safe integer (of magnitude at most \<open>2^53 - 1\<close>): these are the numbers
  that \<open>Number\<close> holds exactly and prints in plain decimal. Other numbers are floating
  point and have no term.
\<close>

typedef safe_int = "{i :: int. - (2 ^ 53 - 1) \<le> i \<and> i \<le> 2 ^ 53 - 1}"
  by (rule exI [of _ 0]) simp

datatype jsval =
    JUndefined
  | JNull
  | JBool bool
  | JNum safe_int
  | JBigInt int
  | JStr string
  | JArr "jsval list"
  | JObj "(string \<times> jsval) list"
  | JCycle

datatype js_error = JsError (name: string) (message: string)

type_synonym jsobj = "(string \<times> jsval) list"

definition digit_char :: "nat \<Rightarrow> char" where
  "digit_char d = ''0123456789abcdef'' ! d"

fun nat_to_string :: "nat \<Rightarrow> string" where
  "nat_to_string n =
     (if n < 10 then [digit_char n] else nat_to_string (n div 10) @ [digit_char (n mod 10)])"

declare nat_to_string.simps [simp del]

definition int_to_string :: "int \<Rightarrow> string" where
  "int_to_string i = (if i < 0 then ''-'' @ nat_to_string (nat (- i)) else nat_to_string (nat i))"

text \<open>
  The string quoting of \<open>JSON.stringify\<close>: the double quote (code 0x22) and the
  backslash (code 0x5C) are escaped, the control characters have their short escapes or
  a four-digit lower-case hexadecimal escape, every other character stands for itself.
\<close>

definition escape_char :: "char \<Rightarrow> string" where
  "escape_char c =
     (if c = CHR 0x22 then [CHR 0x5C, CHR 0x22]
      else if c = CHR 0x5C then [CHR 0x5C, CHR 0x5C]
      else if c = CHR 0x08 then [CHR 0x5C, CHR ''b'']
      else if c = CHR 0x09 then [CHR 0x5C, CHR ''t'']
      else if c = CHR 0x0A then [CHR 0x5C, CHR ''n'']
      else if c = CHR 0x0C then [CHR 0x5C, CHR ''f'']
      else if c = CHR 0x0D then [CHR 0x5C, CHR ''r'']
      else if (of_char c :: nat) < 32
        then [CHR 0x5C, CHR ''u'', CHR ''0'', CHR ''0'',
              digit_char (of_char c div 16), digit_char (of_char c mod 16)]
      else [c])"

definition quote :: "string \<Rightarrow> string" where
  "quote s = [CHR 0x22] @ concat (map escape_char s) @ [CHR 0x22]"

fun join_comma :: "string list \<Rightarrow> string" where
  "join_comma [] = []"
| "join_comma [x] = x"
| "join_comma (x # y # ys) = x @ '','' @ join_comma (y # ys)"

text \<open>
  \<open>JSON.stringify\<close> throws a \<open>TypeError\<close> (\<open>Inl\<close>) when it meets a BigInt or a circular
  structure, in the order of its traversal. Otherwise it returns (\<open>Inr\<close>) a string or,
  for \<open>undefined\<close>, the value \<open>undefined\<close> (\<open>None\<close>). An array element that is
  \<open>undefined\<close> prints as \<open>null\<close>; an object property whose value is \<open>undefined\<close> is left
  out.
\<close>

fun stringify :: "jsval \<Rightarrow> js_error + string option"
  and stringify_elems :: "jsval list \<Rightarrow> js_error + string list"
  and stringify_props :: "(string \<times> jsval) list \<Rightarrow> js_error + string list"
where
  "stringify JUndefined = Inr None"
| "stringify JNull = Inr (Some ''null'')"
| "stringify (JBool b) = Inr (Some (if b then ''true'' else ''false''))"
| "stringify (JNum n) = Inr (Some (int_to_string (Rep_safe_int n)))"
| "stringify (JBigInt n) = Inl (JsError ''TypeError'' ''Do not know how to serialize a BigInt'')"
| "stringify (JStr s) = Inr (Some (quote s))"
| "stringify (JArr xs) =
     (case stringify_elems xs of
        Inl err \<Rightarrow> Inl err
      | Inr ts \<Rightarrow> Inr (Some (''['' @ join_comma ts @ '']'')))"
| "stringify (JObj ps) =
     (case stringify_props ps of
        Inl err \<Rightarrow> Inl err
      | Inr ts \<Rightarrow> Inr (Some (''{'' @ join_comma ts @ ''}'')))"
| "stringify JCycle = Inl (JsError ''TypeError'' ''Converting circular structure to JSON'')"
| "stringify_elems [] = Inr []"
| "stringify_elems (x # xs) =
     (case stringify x of
        Inl err \<Rightarrow> Inl err
      | Inr r \<Rightarrow>
          (case stringify_elems xs of
             Inl err \<Rightarrow> Inl err
           | Inr ts \<Rightarrow> Inr ((case r of None \<Rightarrow> ''null'' | Some t \<Rightarrow> t) # ts)))"
| "stringify_props [] = Inr []"
| "stringify_props ((k, v) # ps) =
     (case stringify v of
        Inl err \<Rightarrow> Inl err
      | Inr r \<Rightarrow>
          (case stringify_props ps of
             Inl err \<Rightarrow> Inl err
           | Inr ts \<Rightarrow>
               Inr (case r of None \<Rightarrow> ts | Some t \<Rightarrow> (quote k @ '':'' @ t) # ts)))"

text \<open>A template literal prints the value \<open>undefined\<close> as the word.\<close>

definition template_str :: "string option \<Rightarrow> string" where
  "template_str r = (case r of None \<Rightarrow> ''undefined'' | Some t \<Rightarrow> t)"

text \<open>
  The cache key of \<open>execute\<close> and of \<open>refetch\<close>: URL, hyphen, serialised options. The
  expression throws when \<open>JSON.stringify\<close> does.
\<close>

definition cacheKey :: "string \<Rightarrow> jsobj \<Rightarrow> js_error + string" where
  "cacheKey customUrl customOptions =
     (case stringify (JObj customOptions) of
        Inl err \<Rightarrow> Inl err
      | Inr r \<Rightarrow> Inr (customUrl @ ''-'' @ template_str r))"

subsection \<open>Object literals with a spread\<close>

text \<open>
  Writing a property into an object keeps the position of a key that is already
  there, and appends a new key.
\<close>

fun set_prop :: "string \<Rightarrow> jsval \<Rightarrow> jsobj \<Rightarrow> jsobj" where
  "set_prop k v [] = [(k, v)]"
| "set_prop k v ((k', v') # ps) =
     (if k' = k then (k, v) # ps else (k', v') # set_prop k v ps)"

definition get_prop :: "jsobj \<Rightarrow> string \<Rightarrow> jsval" where
  "get_prop obj k = (case map_of obj k of None \<Rightarrow> JUndefined | Some v \<Rightarrow> v)"

text \<open>
  The own enumerable properties that a spread copies: those of an object, the indexed
  elements of an array, the indexed characters of a string, none of any other value.
  \<open>execute\<close> spreads the options only after it has computed the cache key, so only
  options in which \<open>JSON.stringify\<close> met no \<open>JCycle\<close>.
\<close>

definition own_props :: "jsval \<Rightarrow> jsobj" where
  "own_props v =
     (case v of
        JObj ps \<Rightarrow> ps
      | JArr xs \<Rightarrow> zip (map nat_to_string [0..<length xs]) xs
      | JStr s \<Rightarrow> zip (map nat_to_string [0..<length s]) (map (\<lambda>c. JStr [c]) s)
      | _ \<Rightarrow> [])"

section \<open>The state of one \<open>useApi\<close> instance\<close>

record cache_entry =
  entry_data :: jsval
  timestamp :: int

text \<open>
  What \<open>fetch\<close> resolves to: the fields \<open>ok\<close> and \<open>status\<close> that \<open>execute\<close> reads, and
  what \<open>response.json()\<close> settles to when the body arrives (a parse error or a value).
\<close>

record response =
  ok :: bool
  status :: nat
  json :: "js_error + jsval"

datatype fetch_outcome = Resolves response | Rejects js_error

text \<open>
  The arguments of one \<open>fetch\<close> call: the URL and the init object, which is the options
  with \<open>signal\<close> and \<open>headers\<close> written over them. The record keeps the options, the
  signal (the number of its controller) and the headers (a map, their order is not
  observed) apart.
\<close>

record request =
  req_url :: string
  req_options :: jsobj
  req_signal :: nat
  req_headers :: "string \<rightharpoonup> jsval"

text \<open>The object \<open>execute\<close> returns: success with data, or failure with a message.\<close>

datatype result = Success jsval | Failure string

text \<open>
  One run of \<open>execute\<close> up to its next suspension: it returned a result (the promise
  is fulfilled), it threw outside its \<open>try\<close> (the promise is rejected), or it waits at an
  \<open>await\<close> for the request of a controller.
\<close>

datatype outcome = Returned result | Threw js_error | Awaiting nat

datatype phase = AwaitFetch | AwaitJson response

record task =
  task_key :: string
  task_phase :: phase

text \<open>
  \<open>data\<close>, \<open>loading\<close>, \<open>error\<close> are the three \<open>useState\<close> cells, \<open>cacheRef\<close> and
  \<open>abortControllerRef\<close> the two refs. Controllers are numbered in the order of their
  creation; \<open>aborted c\<close> is the flag \<open>signal.aborted\<close> of controller \<open>c\<close>. \<open>pending\<close>
  holds the suspended runs of \<open>execute\<close>, \<open>fetch_calls\<close> every call of \<open>fetch\<close> so far.
\<close>

record hook_state =
  data :: jsval
  loading :: bool
  error :: "string option"
  cacheRef :: "string \<rightharpoonup> cache_entry"
  abortControllerRef :: "nat option"
  aborted :: "nat \<Rightarrow> bool"
  next_controller :: nat
  pending :: "nat \<rightharpoonup> task"
  fetch_calls :: "request list"

record params =
  url :: string
  options :: jsobj
  immediate :: bool
  cacheTime :: int

definition initial_state :: hook_state where
  "initial_state =
     \<lparr>data = JNull, loading = False, error = None, cacheRef = Map.empty,
      abortControllerRef = None, aborted = (\<lambda>_. False), next_controller = 0,
      pending = Map.empty, fetch_calls = []\<rparr>"

definition view :: "hook_state \<Rightarrow> jsval \<times> bool \<times> string option" where
  "view s = (data s, loading s, error s)"

section \<open>\<open>execute\<close>\<close>

definition abort_current :: "hook_state \<Rightarrow> hook_state" where
  "abort_current s =
     (case abortControllerRef s of
        None \<Rightarrow> s
      | Some c \<Rightarrow> s\<lparr>aborted := (aborted s)(c := True)\<rparr>)"

definition new_controller :: "hook_state \<Rightarrow> hook_state" where
  "new_controller s =
     s\<lparr>abortControllerRef := Some (next_controller s),
       aborted := (aborted s)(next_controller s := False),
       next_controller := Suc (next_controller s)\<rparr>"

definition build_request :: "string \<Rightarrow> jsobj \<Rightarrow> nat \<Rightarrow> request" where
  "build_request customUrl customOptions c =
     \<lparr>req_url = customUrl, req_options = customOptions, req_signal = c,
      req_headers = [''Content-Type'' \<mapsto> JStr ''application/json'']
                    ++ map_of (own_props (get_prop customOptions ''headers''))\<rparr>"

text \<open>
  The handler of \<open>catch (err)\<close>: an \<open>AbortError\<close> returns without a state update, any
  other error is written to \<open>error\<close>.
\<close>

definition catch_handler :: "js_error \<Rightarrow> hook_state \<Rightarrow> outcome \<times> hook_state" where
  "catch_handler err s =
     (if name err = ''AbortError'' then (Returned (Failure ''Request cancelled''), s)
      else (Returned (Failure (message err)), s\<lparr>error := Some (message err), loading := False\<rparr>))"

text \<open>
  A segment of the \<open>try\<close> block ends in an exception (\<open>Inl\<close>) or normally (\<open>Inr\<close>);
  the exception goes to the handler.
\<close>

definition try_catch :: "(js_error + outcome) \<times> hook_state \<Rightarrow> outcome \<times> hook_state" where
  "try_catch r = (case fst r of Inl err \<Rightarrow> catch_handler err (snd r) | Inr out \<Rightarrow> (out, snd r))"

text \<open>
  The cache missed: \<open>loading\<close> is set and \<open>error\<close> cleared, then the \<open>try\<close> block
  reads the signal of the current controller, calls \<open>fetch\<close> and suspends.
\<close>

definition start_fetch :: "string \<Rightarrow> jsobj \<Rightarrow> string \<Rightarrow> hook_state \<Rightarrow> outcome \<times> hook_state" where
  "start_fetch customUrl customOptions key s =
     (let s1 = s\<lparr>loading := True, error := None\<rparr>
      in try_catch
           (case abortControllerRef s1 of
              None \<Rightarrow> (Inl (JsError ''TypeError'' ''Cannot read properties of null''), s1)
            | Some c \<Rightarrow>
                (Inr (Awaiting c),
                 s1\<lparr>fetch_calls := fetch_calls s1 @ [build_request customUrl customOptions c],
                    pending := (pending s1)(c \<mapsto> \<lparr>task_key = key, task_phase = AwaitFetch\<rparr>)\<rparr>)))"

text \<open>A parameter with a default value: \<open>None\<close> is an omitted argument.\<close>

definition or_default :: "'a option \<Rightarrow> 'a \<Rightarrow> 'a" where
  "or_default arg d = (case arg of None \<Rightarrow> d | Some x \<Rightarrow> x)"

text \<open>
  \<open>execute(customUrl = url, customOptions = options)\<close> up to its first suspension, at
  the time \<open>now\<close> of \<open>Date.now()\<close>. The previous controller is aborted and the new one
  created before the cache key is computed; the key is computed before the \<open>try\<close>
  block, so an exception of \<open>JSON.stringify\<close> leaves \<open>execute\<close> uncaught.
\<close>

definition execute ::
  "params \<Rightarrow> string option \<Rightarrow> jsobj option \<Rightarrow> int \<Rightarrow> hook_state \<Rightarrow> outcome \<times> hook_state" where
  "execute p url_arg options_arg now s =
     (let customUrl = or_default url_arg (url p);
          customOptions = or_default options_arg (options p);
          s1 = new_controller (abort_current s)
      in case cacheKey customUrl customOptions of
           Inl err \<Rightarrow> (Threw err, s1)
         | Inr key \<Rightarrow>
             (case cacheRef s1 key of
                None \<Rightarrow> start_fetch customUrl customOptions key s1
              | Some cachedData \<Rightarrow>
                  if now - timestamp cachedData < cacheTime p
                  then (Returned (Success (entry_data cachedData)),
                        s1\<lparr>data := entry_data cachedData, error := None\<rparr>)
                  else start_fetch customUrl customOptions key s1))"

text \<open>
  The transport honours the signal: an awaited promise of a request whose controller is
  aborted rejects with an \<open>AbortError\<close>.
\<close>

definition AbortError :: js_error where
  "AbortError = JsError ''AbortError'' ''The operation was aborted.''"

text \<open>
  The run that waits for \<open>fetch\<close> resumes: a rejection and a response that is not \<open>ok\<close>
  go to the handler, an \<open>ok\<close> response suspends again at \<open>response.json()\<close>.
  \<open>None\<close>: no run of controller \<open>c\<close> waits for \<open>fetch\<close>.
\<close>

definition fetch_settled :: "nat \<Rightarrow> fetch_outcome \<Rightarrow> hook_state \<Rightarrow> (outcome \<times> hook_state) option" where
  "fetch_settled c out s =
     (case pending s c of
        None \<Rightarrow> None
      | Some t \<Rightarrow>
          (case task_phase t of
             AwaitJson _ \<Rightarrow> None
           | AwaitFetch \<Rightarrow>
               Some (try_catch
                 (let s1 = s\<lparr>pending := (pending s)(c := None)\<rparr>
                  in case (if aborted s c then Rejects AbortError else out) of
                       Rejects err \<Rightarrow> (Inl err, s1)
                     | Resolves response \<Rightarrow>
                         if \<not> ok response
                         then (Inl (JsError ''Error''
                                 (''HTTP error! status: '' @ nat_to_string (status response))), s1)
                         else (Inr (Awaiting c),
                               s\<lparr>pending := (pending s)(c \<mapsto> t\<lparr>task_phase := AwaitJson response\<rparr>)\<rparr>)))))"

text \<open>
  The run that waits for \<open>response.json()\<close> resumes at the time \<open>now\<close>: the result is
  cached under the key of the run, \<open>data\<close> is set and \<open>loading\<close> cleared.
\<close>

definition json_settled :: "nat \<Rightarrow> int \<Rightarrow> hook_state \<Rightarrow> (outcome \<times> hook_state) option" where
  "json_settled c now s =
     (case pending s c of
        None \<Rightarrow> None
      | Some t \<Rightarrow>
          (case task_phase t of
             AwaitFetch \<Rightarrow> None
           | AwaitJson response \<Rightarrow>
               Some (try_catch
                 (let s1 = s\<lparr>pending := (pending s)(c := None)\<rparr>
                  in case (if aborted s c then Inl AbortError else json response) of
                       Inl err \<Rightarrow> (Inl err, s1)
                     | Inr result \<Rightarrow>
                         (Inr (Returned (Success result)),
                          s1\<lparr>cacheRef := (cacheRef s1)(task_key t \<mapsto>
                                \<lparr>entry_data = result, timestamp = now\<rparr>),
                             data := result, loading := False\<rparr>)))))"

section \<open>\<open>refetch\<close>, the effect and the derived hooks\<close>

text \<open>
  \<open>refetch\<close> computes the key of the defaults first, outside any \<open>try\<close>: when that
  throws, nothing is deleted and \<open>execute\<close> is not called.
\<close>

definition refetch :: "params \<Rightarrow> int \<Rightarrow> hook_state \<Rightarrow> outcome \<times> hook_state" where
  "refetch p now s =
     (case cacheKey (url p) (options p) of
        Inl err \<Rightarrow> (Threw err, s)
      | Inr key \<Rightarrow> execute p None None now (s\<lparr>cacheRef := (cacheRef s)(key := None)\<rparr>))"

text \<open>The cleanup function of the effect.\<close>

definition cleanup :: "hook_state \<Rightarrow> hook_state" where
  "cleanup s = abort_current s"

text \<open>
  \<open>useApi\<close>: the parameters of the instance and its state after the first render and
  the first run of the effect, at the time \<open>now\<close>.
\<close>

definition default_cacheTime :: int where
  "default_cacheTime = 5 * 60 * 1000"

definition useApi :: "string \<Rightarrow> jsobj \<Rightarrow> bool \<Rightarrow> int \<Rightarrow> int \<Rightarrow> params \<times> hook_state" where
  "useApi u opts imm ct now =
     (let p = \<lparr>url = u, options = opts, immediate = imm, cacheTime = ct\<rparr>
      in (p, if imm then snd (execute p None None now initial_state) else initial_state))"

definition usePost :: "string \<Rightarrow> jsobj \<Rightarrow> int \<Rightarrow> params \<times> hook_state" where
  "usePost u opts now = useApi u (set_prop ''method'' (JStr ''POST'') opts) False default_cacheTime now"

definition usePut :: "string \<Rightarrow> jsobj \<Rightarrow> int \<Rightarrow> params \<times> hook_state" where
  "usePut u opts now = useApi u (set_prop ''method'' (JStr ''PUT'') opts) False default_cacheTime now"

definition useDelete :: "string \<Rightarrow> jsobj \<Rightarrow> int \<Rightarrow> params \<times> hook_state" where
  "useDelete u opts now = useApi u (set_prop ''method'' (JStr ''DELETE'') opts) False default_cacheTime now"

section \<open>Events of one instance\<close>

text \<open>
  The caller calls \<open>execute\<close> or \<open>refetch\<close>, the transport settles the promise a run
  waits for, React runs the cleanup of the effect.
\<close>

datatype event =
    Execute "string option" "jsobj option" int
  | Refetch int
  | FetchSettled nat fetch_outcome
  | JsonSettled nat int
  | Cleanup

fun fire :: "params \<Rightarrow> event \<Rightarrow> hook_state \<Rightarrow> (outcome \<times> hook_state) option" where
  "fire p (Execute u opts now) s = Some (execute p u opts now s)"
| "fire p (Refetch now) s = Some (refetch p now s)"
| "fire p (FetchSettled c out) s = fetch_settled c out s"
| "fire p (JsonSettled c now) s = json_settled c now s"
| "fire p Cleanup s = None"

fun step :: "params \<Rightarrow> event \<Rightarrow> hook_state \<Rightarrow> hook_state" where
  "step p Cleanup s = cleanup s"
| "step p ev s = (case fire p ev s of None \<Rightarrow> s | Some r \<Rightarrow> snd r)"

fun run :: "params \<Rightarrow> event list \<Rightarrow> hook_state \<Rightarrow> hook_state" where
  "run p [] s = s"
| "run p (ev # evs) s = run p evs (step p ev s)"

fun settles :: "nat \<Rightarrow> event \<Rightarrow> bool" where
  "settles c (FetchSettled c' out) = (c' = c)"
| "settles c (JsonSettled c' now) = (c' = c)"
| "settles c ev = False"

fun is_settlement :: "event \<Rightarrow> bool" where
  "is_settlement (FetchSettled c out) = True"
| "is_settlement (JsonSettled c now) = True"
| "is_settlement ev = False"

fun is_call :: "event \<Rightarrow> bool" where
  "is_call (Execute u opts now) = True"
| "is_call (Refetch now) = True"
| "is_call ev = False"

text \<open>
  A call that starts a run of \<open>execute\<close>: every call of \<open>execute\<close>, and a call of
  \<open>refetch\<close> whose own key computation does not throw.
\<close>

fun starts_execute :: "params \<Rightarrow> event \<Rightarrow> bool" where
  "starts_execute p (Execute u opts now) = True"
| "starts_execute p (Refetch now) =
     (case cacheKey (url p) (options p) of Inl err \<Rightarrow> False | Inr key \<Rightarrow> True)"
| "starts_execute p ev = False"

section \<open>Invariants and a simulation\<close>

text \<open>The current controller has been created: its number is below the next one.\<close>

definition allocated :: "hook_state \<Rightarrow> bool" where
  "allocated s = (\<forall>c. abortControllerRef s = Some c \<longrightarrow> c < next_controller s)"

text \<open>Every suspended run belongs to the current controller or to an aborted one.\<close>

definition tracked :: "hook_state \<Rightarrow> bool" where
  "tracked s = (\<forall>c t. pending s c = Some t \<longrightarrow> aborted s c \<or> abortControllerRef s = Some c)"

definition all_aborted :: "hook_state \<Rightarrow> bool" where
  "all_aborted s = (\<forall>c t. pending s c = Some t \<longrightarrow> aborted s c)"

text \<open>Two states that differ at most in the suspended run of controller \<open>c\<close>.\<close>

definition agree_except :: "nat \<Rightarrow> hook_state \<Rightarrow> hook_state \<Rightarrow> bool" where
  "agree_except c s s' =
     (s' = s\<lparr>pending := pending s'\<rparr> \<and> (\<forall>c'. c' \<noteq> c \<longrightarrow> pending s' c' = pending s c'))"

section \<open>A concrete instance\<close>

text \<open>
  An instance for one post, with the default time-to-live and no request at creation,
  and a successful response with a given body.
\<close>

definition post1 :: params where
  "post1 = \<lparr>url = ''/api/posts/1'', options = [], immediate = False,
            cacheTime = default_cacheTime\<rparr>"

definition ok_response :: "jsval \<Rightarrow> response" where
  "ok_response v = \<lparr>ok = True, status = 200, json = Inr v\<rparr>"

definition not_found :: response where
  "not_found = \<lparr>ok = False, status = 404,
                 json = Inl (JsError ''SyntaxError'' ''Unexpected token'')\<rparr>"

section \<open>Basic facts about the operations\<close>

lemmas hook_defs = execute_def start_fetch_def try_catch_def catch_handler_def fetch_settled_def
  json_settled_def refetch_def cleanup_def abort_current_def new_controller_def initial_state_def
  AbortError_def or_default_def

lemmas key_defs = cacheKey_def template_str_def quote_def escape_char_def

lemma abort_current_fields [simp]:
  "data (abort_current s) = data s"
  "loading (abort_current s) = loading s"
  "error (abort_current s) = error s"
  "cacheRef (abort_current s) = cacheRef s"
  "abortControllerRef (abort_current s) = abortControllerRef s"
  "next_controller (abort_current s) = next_controller s"
  "pending (abort_current s) = pending s"
  "fetch_calls (abort_current s) = fetch_calls s"
  by (simp_all add: abort_current_def split: option.split)

lemma aborted_abort_current [simp]:
  "aborted (abort_current s) c = (aborted s c \<or> abortControllerRef s = Some c)"
  by (auto simp: abort_current_def split: option.split)

lemma new_controller_fields [simp]:
  "data (new_controller s) = data s"
  "loading (new_controller s) = loading s"
  "error (new_controller s) = error s"
  "cacheRef (new_controller s) = cacheRef s"
  "abortControllerRef (new_controller s) = Some (next_controller s)"
  "next_controller (new_controller s) = Suc (next_controller s)"
  "pending (new_controller s) = pending s"
  "fetch_calls (new_controller s) = fetch_calls s"
  by (simp_all add: new_controller_def)

lemma aborted_new_controller [simp]:
  "aborted (new_controller s) c = (c \<noteq> next_controller s \<and> aborted s c)"
  by (auto simp: new_controller_def)

lemma start_fetch_eq:
  "abortControllerRef s = Some c \<Longrightarrow>
   start_fetch u opts key s =
     (Awaiting c,
      s\<lparr>loading := True, error := None,
        fetch_calls := fetch_calls s @ [build_request u opts c],
        pending := (pending s)(c \<mapsto> \<lparr>task_key = key, task_phase = AwaitFetch\<rparr>)\<rparr>)"
  by (simp add: start_fetch_def try_catch_def)

lemma execute_throws:
  assumes "cacheKey u opts = Inl err"
  shows "execute p (Some u) (Some opts) now s = (Threw err, new_controller (abort_current s))"
  using assms by (simp add: execute_def or_default_def Let_def)

lemma execute_miss:
  assumes "cacheKey u opts = Inr key"
    and "case cacheRef s key of None \<Rightarrow> True | Some e \<Rightarrow> \<not> now - timestamp e < cacheTime p"
  shows "execute p (Some u) (Some opts) now s =
     start_fetch u opts key (new_controller (abort_current s))"
  using assms by (simp add: execute_def or_default_def Let_def split: option.splits)

lemma execute_hit:
  assumes "cacheKey u opts = Inr key"
    and "cacheRef s key = Some e" and "now - timestamp e < cacheTime p"
  shows "execute p (Some u) (Some opts) now s =
     (Returned (Success (entry_data e)),
      (new_controller (abort_current s))\<lparr>data := entry_data e, error := None\<rparr>)"
  using assms by (simp add: execute_def or_default_def Let_def)

lemma execute_defaults:
  "execute p ua oa now s =
     execute p (Some (or_default ua (url p))) (Some (or_default oa (options p))) now s"
  by (simp add: execute_def or_default_def)

lemma or_default_simps [simp]:
  "or_default None d = d"
  "or_default (Some x) d = x"
  by (simp_all add: or_default_def)

lemma map_of_set_prop: "map_of (set_prop k v ps) = (map_of ps)(k \<mapsto> v)"
  by (induction ps) auto

lemma get_prop_set_prop:
  "get_prop (set_prop k v ps) k' = (if k' = k then v else get_prop ps k')"
  by (simp add: get_prop_def map_of_set_prop)

lemma catch_handler_abort [simp]:
  "catch_handler AbortError s = (Returned (Failure ''Request cancelled''), s)"
  by (simp add: catch_handler_def AbortError_def)

lemma fetch_calls_catch_handler [simp]:
  "fetch_calls (snd (catch_handler err s)) = fetch_calls s"
  by (simp add: catch_handler_def)

lemma fetch_settled_calls:
  "fetch_settled c out s = Some r \<Longrightarrow> fetch_calls (snd r) = fetch_calls s"
  by (auto simp: fetch_settled_def try_catch_def Let_def
           split: option.splits phase.splits fetch_outcome.splits if_splits)

lemma json_settled_calls:
  "json_settled c now s = Some r \<Longrightarrow> fetch_calls (snd r) = fetch_calls s"
  by (auto simp: json_settled_def try_catch_def Let_def
           split: option.splits phase.splits sum.splits if_splits)

lemma step_no_call_fetch_calls:
  "\<not> is_call ev \<Longrightarrow> fetch_calls (step p ev s) = fetch_calls s"
  by (cases ev)
     (auto simp: cleanup_def dest: fetch_settled_calls json_settled_calls split: option.splits)

lemma run_no_call_fetch_calls:
  "\<forall>ev \<in> set evs. \<not> is_call ev \<Longrightarrow> fetch_calls (run p evs s) = fetch_calls s"
  by (induction evs arbitrary: s) (simp_all add: step_no_call_fetch_calls)

lemma fetch_settled_aborted_cases:
  assumes "aborted s c"
  shows "fetch_settled c out s = None
       \<or> fetch_settled c out s =
           Some (Returned (Failure ''Request cancelled''), s\<lparr>pending := (pending s)(c := None)\<rparr>)"
  using assms by (simp add: fetch_settled_def try_catch_def split: option.splits phase.splits)

lemma json_settled_aborted_cases:
  assumes "aborted s c"
  shows "json_settled c now s = None
       \<or> json_settled c now s =
           Some (Returned (Failure ''Request cancelled''), s\<lparr>pending := (pending s)(c := None)\<rparr>)"
  using assms by (simp add: json_settled_def try_catch_def split: option.splits phase.splits)

lemma fetch_settled_aborted:
  assumes "pending s c = Some t" and "task_phase t = AwaitFetch" and "aborted s c"
  shows "fetch_settled c x s =
           Some (Returned (Failure ''Request cancelled''), s\<lparr>pending := (pending s)(c := None)\<rparr>)"
  using assms by (simp add: fetch_settled_def try_catch_def)

lemma json_settled_aborted:
  assumes "pending s c = Some t" and "task_phase t = AwaitJson r" and "aborted s c"
  shows "json_settled c now s =
           Some (Returned (Failure ''Request cancelled''), s\<lparr>pending := (pending s)(c := None)\<rparr>)"
  using assms by (simp add: json_settled_def try_catch_def)

lemma fetch_settled_rejected:
  assumes "pending s c = Some t" and "task_phase t = AwaitFetch" and "\<not> aborted s c"
  shows "fetch_settled c (Rejects err) s =
           Some (catch_handler err (s\<lparr>pending := (pending s)(c := None)\<rparr>))"
  using assms by (simp add: fetch_settled_def try_catch_def)

lemma json_settled_error:
  assumes "pending s c = Some t" and "task_phase t = AwaitJson r" and "\<not> aborted s c"
    and "json r = Inl err"
  shows "json_settled c now s =
           Some (catch_handler err (s\<lparr>pending := (pending s)(c := None)\<rparr>))"
  using assms by (simp add: json_settled_def try_catch_def)

lemma catch_handler_failure:
  assumes "name err \<noteq> ''AbortError''"
  shows "catch_handler err s =
           (Returned (Failure (message err)), s\<lparr>error := Some (message err), loading := False\<rparr>)"
  using assms by (simp add: catch_handler_def)

lemma catch_handler_cancelled:
  assumes "name err = ''AbortError''"
  shows "catch_handler err s = (Returned (Failure ''Request cancelled''), s)"
  using assms by (simp add: catch_handler_def)

lemma fetch_settled_http_error:
  assumes "pending s c = Some t" and "task_phase t = AwaitFetch" and "\<not> aborted s c" and "\<not> ok r"
  shows "fetch_settled c (Resolves r) s =
           Some (Returned (Failure (''HTTP error! status: '' @ nat_to_string (status r))),
                 s\<lparr>pending := (pending s)(c := None),
                   error := Some (''HTTP error! status: '' @ nat_to_string (status r)),
                   loading := False\<rparr>)"
  using assms by (simp add: fetch_settled_def try_catch_def catch_handler_def)

lemma fetch_settled_ok:
  assumes "pending s c = Some t" and "task_phase t = AwaitFetch" and "\<not> aborted s c" and "ok r"
  shows "fetch_settled c (Resolves r) s =
           Some (Awaiting c, s\<lparr>pending := (pending s)(c \<mapsto> t\<lparr>task_phase := AwaitJson r\<rparr>)\<rparr>)"
  using assms by (simp add: fetch_settled_def try_catch_def)

lemma json_settled_value:
  assumes "pending s c = Some t" and "task_phase t = AwaitJson r" and "\<not> aborted s c"
    and "json r = Inr v"
  shows "json_settled c now s =
           Some (Returned (Success v),
                 s\<lparr>pending := (pending s)(c := None),
                   cacheRef := (cacheRef s)(task_key t \<mapsto> \<lparr>entry_data = v, timestamp = now\<rparr>),
                   data := v, loading := False\<rparr>)"
  using assms by (simp add: json_settled_def try_catch_def)

lemma key_post1: "cacheKey ''/api/posts/1'' [] = Inr ''/api/posts/1-{}''"
  by (simp add: key_defs)

lemma key_post2: "cacheKey ''/api/posts/2'' [] = Inr ''/api/posts/2-{}''"
  by (simp add: key_defs)

lemma post1_fields:
  "url post1 = ''/api/posts/1''" "options post1 = []" "cacheTime post1 = 300000"
  by (simp_all add: post1_def default_cacheTime_def)

lemmas example_defs = post1_def ok_response_def not_found_def default_cacheTime_def view_def
  key_post1 key_post2

lemma refetch_throws:
  assumes "cacheKey (url p) (options p) = Inl err"
  shows "refetch p now s = (Threw err, s)"
  using assms by (simp add: refetch_def)

lemma refetch_executes:
  assumes "cacheKey (url p) (options p) = Inr key"
  shows "refetch p now s = execute p None None now (s\<lparr>cacheRef := (cacheRef s)(key := None)\<rparr>)"
  using assms by (simp add: refetch_def)

lemma run_append: "run p (xs @ ys) s = run p ys (run p xs s)"
  by (induction xs arbitrary: s) simp_all

subsection \<open>What each operation does to the controllers\<close>

lemma start_fetch_controllers:
  "next_controller (snd (start_fetch u opts k s)) = next_controller s"
  "abortControllerRef (snd (start_fetch u opts k s)) = abortControllerRef s"
  "aborted (snd (start_fetch u opts k s)) = aborted s"
  by (simp_all add: start_fetch_def try_catch_def catch_handler_def Let_def split: option.split)

lemma execute_controllers:
  "next_controller (snd (execute p ua oa now s)) = Suc (next_controller s)"
  "abortControllerRef (snd (execute p ua oa now s)) = Some (next_controller s)"
  "aborted (snd (execute p ua oa now s)) c =
     (c \<noteq> next_controller s \<and> (aborted s c \<or> abortControllerRef s = Some c))"
  by (simp_all add: execute_def Let_def start_fetch_controllers split: option.split sum.split)

lemma refetch_controllers:
  assumes "cacheKey (url p) (options p) = Inr key"
  shows "next_controller (snd (refetch p now s)) = Suc (next_controller s)"
    and "abortControllerRef (snd (refetch p now s)) = Some (next_controller s)"
    and "aborted (snd (refetch p now s)) c =
     (c \<noteq> next_controller s \<and> (aborted s c \<or> abortControllerRef s = Some c))"
  by (simp_all add: refetch_executes [OF assms] execute_controllers)

lemma catch_handler_controllers:
  "next_controller (snd (catch_handler err s)) = next_controller s"
  "abortControllerRef (snd (catch_handler err s)) = abortControllerRef s"
  "aborted (snd (catch_handler err s)) = aborted s"
  by (simp_all add: catch_handler_def)

lemma fetch_settled_controllers:
  assumes "fetch_settled c out s = Some r"
  shows "next_controller (snd r) = next_controller s"
    and "abortControllerRef (snd r) = abortControllerRef s"
    and "aborted (snd r) = aborted s"
  using assms
  by (auto simp: fetch_settled_def try_catch_def Let_def catch_handler_controllers
           split: option.splits phase.splits fetch_outcome.splits if_splits)

lemma json_settled_controllers:
  assumes "json_settled c now s = Some r"
  shows "next_controller (snd r) = next_controller s"
    and "abortControllerRef (snd r) = abortControllerRef s"
    and "aborted (snd r) = aborted s"
  using assms
  by (auto simp: json_settled_def try_catch_def Let_def catch_handler_controllers
           split: option.splits phase.splits sum.splits if_splits)

lemma step_aborted_stable:
  assumes "aborted s c" and "c < next_controller s"
  shows "aborted (step p ev s) c \<and> c < next_controller (step p ev s)"
proof (cases ev)
  case (Execute ua oa now)
  with assms show ?thesis by (simp add: execute_controllers)
next
  case (Refetch now)
  with assms show ?thesis
    by (cases "cacheKey (url p) (options p)") (simp_all add: refetch_throws refetch_controllers)
next
  case (FetchSettled c' out)
  with assms show ?thesis
    by (cases "fetch_settled c' out s") (simp_all add: fetch_settled_controllers)
next
  case (JsonSettled c' now)
  with assms show ?thesis
    by (cases "json_settled c' now s") (simp_all add: json_settled_controllers)
next
  case Cleanup
  with assms show ?thesis by (simp add: cleanup_def)
qed

lemma step_allocated: "allocated s \<Longrightarrow> allocated (step p ev s)"
proof (cases ev)
  case (Refetch now)
  assume "allocated s"
  with Refetch show ?thesis
    by (cases "cacheKey (url p) (options p)")
       (simp_all add: allocated_def refetch_throws refetch_controllers)
next
  case (FetchSettled c' out)
  assume "allocated s"
  with FetchSettled show ?thesis
    by (cases "fetch_settled c' out s") (simp_all add: allocated_def fetch_settled_controllers)
next
  case (JsonSettled c' now)
  assume "allocated s"
  with JsonSettled show ?thesis
    by (cases "json_settled c' now s") (simp_all add: allocated_def json_settled_controllers)
qed (simp_all add: allocated_def execute_controllers cleanup_def)

lemma run_allocated: "allocated s \<Longrightarrow> allocated (run p evs s)"
  by (induction evs arbitrary: s) (simp_all add: step_allocated)

lemma allocated_initial: "allocated initial_state"
  by (simp add: allocated_def initial_state_def)

lemma call_aborts_current:
  assumes "allocated s" and "abortControllerRef s = Some c" and "starts_execute p ev"
  shows "aborted (step p ev s) c \<and> c < next_controller (step p ev s)"
proof (cases ev)
  case (Execute ua oa now)
  with assms show ?thesis
    by (auto simp: allocated_def execute_controllers)
next
  case (Refetch now)
  with assms(3) obtain key where "cacheKey (url p) (options p) = Inr key"
    by (auto split: sum.splits)
  with Refetch assms(1,2) show ?thesis
    by (auto simp: allocated_def refetch_controllers)
qed (use assms(3) in simp_all)

subsection \<open>Settling an aborted request\<close>

lemma settle_aborted:
  assumes "settles c ev" and "aborted s c" and "fire p ev s = Some (out, s')"
  shows "out = Returned (Failure ''Request cancelled'') \<and> s' = s\<lparr>pending := (pending s)(c := None)\<rparr>"
proof (cases ev)
  case (FetchSettled c' x)
  with assms fetch_settled_aborted_cases [of s c x] show ?thesis by auto
next
  case (JsonSettled c' now)
  with assms json_settled_aborted_cases [of s c now] show ?thesis by auto
qed (use assms in simp_all)

lemma step_settle_aborted:
  assumes "settles c ev" and "aborted s c"
  shows "step p ev s = s \<or> step p ev s = s\<lparr>pending := (pending s)(c := None)\<rparr>"
proof (cases "fire p ev s")
  case None
  with assms show ?thesis by (cases ev) simp_all
next
  case (Some r)
  with settle_aborted [OF assms, of p "fst r" "snd r"] assms show ?thesis
    by (cases ev) simp_all
qed

subsection \<open>States that differ in one suspended run\<close>

lemma agree_exceptI:
  assumes "s' = s\<lparr>pending := q\<rparr>" and "\<And>c'. c' \<noteq> c \<Longrightarrow> q c' = pending s c'"
  shows "agree_except c s s'"
  using assms by (simp add: agree_except_def)

lemma agree_exceptE:
  assumes "agree_except c s s'"
  obtains q where "s' = s\<lparr>pending := q\<rparr>" and "\<And>c'. c' \<noteq> c \<Longrightarrow> q c' = pending s c'"
  using assms that [of "pending s'"] unfolding agree_except_def by auto

lemma agree_except_fields:
  assumes "agree_except c s s'"
  shows "view s' = view s" and "cacheRef s' = cacheRef s" and "fetch_calls s' = fetch_calls s"
    and "abortControllerRef s' = abortControllerRef s" and "aborted s' = aborted s"
    and "next_controller s' = next_controller s"
  using assms by (auto elim!: agree_exceptE simp: view_def)

lemma execute_agree:
  assumes "agree_except c s s'"
  shows "agree_except c (snd (execute p ua oa now s)) (snd (execute p ua oa now s'))"
proof -
  let ?u = "or_default ua (url p)" and ?opts = "or_default oa (options p)"
  from assms obtain q where s': "s' = s\<lparr>pending := q\<rparr>"
    and q: "\<And>c'. c' \<noteq> c \<Longrightarrow> q c' = pending s c'"
    by (auto elim: agree_exceptE)
  have nc: "new_controller (abort_current (s\<lparr>pending := q\<rparr>))
      = (new_controller (abort_current s))\<lparr>pending := q\<rparr>"
    by (simp add: new_controller_def abort_current_def split: option.split)
  show ?thesis
  proof (cases "cacheKey ?u ?opts")
    case (Inl err)
    then have "execute p ua oa now s = (Threw err, new_controller (abort_current s))"
      and "execute p ua oa now s' = (Threw err, new_controller (abort_current s'))"
      unfolding execute_defaults [of p ua oa] by (rule execute_throws)+
    then show ?thesis
      unfolding s' nc by (simp add: agree_except_def q)
  next
    case (Inr key)
    show ?thesis
    proof (cases "case cacheRef s key of None \<Rightarrow> True
                    | Some e \<Rightarrow> \<not> now - timestamp e < cacheTime p")
      case True
      then have "case cacheRef s' key of None \<Rightarrow> True
                    | Some e \<Rightarrow> \<not> now - timestamp e < cacheTime p"
        by (simp add: s')
      with Inr True
      have "execute p ua oa now s = start_fetch ?u ?opts key (new_controller (abort_current s))"
        and "execute p ua oa now s' = start_fetch ?u ?opts key (new_controller (abort_current s'))"
        unfolding execute_defaults [of p ua oa] by (simp_all add: execute_miss)
      then show ?thesis
        unfolding s' nc by (simp add: start_fetch_eq agree_except_def q)
    next
      case False
      then obtain e where e: "cacheRef s key = Some e" "now - timestamp e < cacheTime p"
        by (auto split: option.splits)
      then have e': "cacheRef s' key = Some e"
        by (simp add: s')
      from Inr e e'
      have "execute p ua oa now s = (Returned (Success (entry_data e)),
              (new_controller (abort_current s))\<lparr>data := entry_data e, error := None\<rparr>)"
        and "execute p ua oa now s' = (Returned (Success (entry_data e)),
              (new_controller (abort_current s'))\<lparr>data := entry_data e, error := None\<rparr>)"
        unfolding execute_defaults [of p ua oa] by (simp_all add: execute_hit)
      then show ?thesis
        unfolding s' nc by (simp add: agree_except_def q)
    qed
  qed
qed

lemma refetch_agree:
  assumes "agree_except c s s'"
  shows "agree_except c (snd (refetch p now s)) (snd (refetch p now s'))"
proof (cases "cacheKey (url p) (options p)")
  case (Inl err)
  with assms show ?thesis
    by (simp add: refetch_throws)
next
  case (Inr key)
  from assms obtain q where s': "s' = s\<lparr>pending := q\<rparr>"
    and q: "\<And>c'. c' \<noteq> c \<Longrightarrow> q c' = pending s c'"
    by (auto elim: agree_exceptE)
  have "agree_except c (s\<lparr>cacheRef := (cacheRef s)(key := None)\<rparr>)
      (s'\<lparr>cacheRef := (cacheRef s')(key := None)\<rparr>)"
    unfolding s' by (simp add: agree_except_def q)
  then show ?thesis
    unfolding refetch_executes [OF Inr] by (rule execute_agree)
qed

lemma fetch_settled_agree:
  assumes "agree_except c s s'" and "c' \<noteq> c"
  shows "agree_except c (step p (FetchSettled c' x) s) (step p (FetchSettled c' x) s')"
proof -
  from assms obtain q where s': "s' = s\<lparr>pending := q\<rparr>"
    and q: "\<And>c'. c' \<noteq> c \<Longrightarrow> q c' = pending s c'"
    by (auto elim: agree_exceptE)
  show ?thesis
    unfolding s'
    by (rule agree_exceptI [where q = "pending (step p (FetchSettled c' x) (s\<lparr>pending := q\<rparr>))"])
       (use assms(2) in \<open>auto simp: hook_defs Let_def q
          split: option.splits phase.splits fetch_outcome.splits\<close>)
qed

lemma json_settled_agree:
  assumes "agree_except c s s'" and "c' \<noteq> c"
  shows "agree_except c (step p (JsonSettled c' now) s) (step p (JsonSettled c' now) s')"
proof -
  from assms obtain q where s': "s' = s\<lparr>pending := q\<rparr>"
    and q: "\<And>c'. c' \<noteq> c \<Longrightarrow> q c' = pending s c'"
    by (auto elim: agree_exceptE)
  show ?thesis
    unfolding s'
    by (rule agree_exceptI [where q = "pending (step p (JsonSettled c' now) (s\<lparr>pending := q\<rparr>))"])
       (use assms(2) in \<open>auto simp: hook_defs Let_def q
          split: option.splits phase.splits sum.splits\<close>)
qed

lemma step_agree:
  assumes "agree_except c s s'" and "\<not> settles c ev"
  shows "agree_except c (step p ev s) (step p ev s')"
proof (cases ev)
  case (Execute ua oa now)
  with execute_agree [OF assms(1)] show ?thesis by simp
next
  case (Refetch now)
  with refetch_agree [OF assms(1)] show ?thesis by simp
next
  case (FetchSettled c' x)
  with assms fetch_settled_agree show ?thesis by simp
next
  case (JsonSettled c' now)
  with assms json_settled_agree show ?thesis by simp
next
  case Cleanup
  from assms(1) obtain q where s': "s' = s\<lparr>pending := q\<rparr>"
    and q: "\<And>c'. c' \<noteq> c \<Longrightarrow> q c' = pending s c'"
    by (auto elim: agree_exceptE)
  show ?thesis
    unfolding s' Cleanup
    by (simp add: agree_except_def cleanup_def abort_current_def q split: option.splits)
qed

lemma step_settle_agree:
  assumes "agree_except c s s'" and "settles c ev" and "aborted s c"
  shows "agree_except c (step p ev s) s'"
proof -
  from assms(1) obtain q where s': "s' = s\<lparr>pending := q\<rparr>"
    and q: "\<And>c'. c' \<noteq> c \<Longrightarrow> q c' = pending s c'"
    by (auto elim: agree_exceptE)
  from step_settle_aborted [OF assms(2,3), of p] show ?thesis
    unfolding s' by (auto simp: agree_except_def q)
qed

lemma run_agree:
  assumes "agree_except c s s'" and "aborted s c" and "c < next_controller s"
  shows "agree_except c (run p evs s) (run p (filter (\<lambda>ev. \<not> settles c ev) evs) s')"
  using assms
proof (induction evs arbitrary: s s')
  case Nil
  then show ?case by simp
next
  case (Cons ev evs)
  have st: "aborted (step p ev s) c" "c < next_controller (step p ev s)"
    using step_aborted_stable [OF Cons.prems(2,3)] by simp_all
  show ?case
  proof (cases "settles c ev")
    case True
    with Cons.prems have "agree_except c (step p ev s) s'"
      by (simp add: step_settle_agree)
    from Cons.IH [OF this st] True show ?thesis by simp
  next
    case False
    with Cons.prems have "agree_except c (step p ev s) (step p ev s')"
      by (simp add: step_agree)
    from Cons.IH [OF this st] False show ?thesis by simp
  qed
qed

lemma agree_except_refl: "agree_except c s s"
  by (simp add: agree_except_def)

lemma run_aborted_stable:
  assumes "aborted s c" and "c < next_controller s"
  shows "aborted (run p evs s) c \<and> c < next_controller (run p evs s)"
  using assms
proof (induction evs arbitrary: s)
  case Nil
  then show ?case by simp
next
  case (Cons ev evs)
  from step_aborted_stable [OF Cons.prems] Cons.IH show ?case by simp
qed

lemma execute_cases:
  fixes p ua oa now s
  defines "u \<equiv> or_default ua (url p)" and "opts \<equiv> or_default oa (options p)"
  defines "s0 \<equiv> new_controller (abort_current s)"
  shows "(\<exists>err. cacheKey u opts = Inl err \<and> execute p ua oa now s = (Threw err, s0))
       \<or> (\<exists>key e. cacheKey u opts = Inr key \<and> cacheRef s key = Some e
            \<and> now - timestamp e < cacheTime p
            \<and> execute p ua oa now s
                = (Returned (Success (entry_data e)), s0\<lparr>data := entry_data e, error := None\<rparr>))
       \<or> (\<exists>key. cacheKey u opts = Inr key
            \<and> execute p ua oa now s
                = (Awaiting (next_controller s),
                   s0\<lparr>loading := True, error := None,
                      fetch_calls := fetch_calls s @ [build_request u opts (next_controller s)],
                      pending := (pending s)(next_controller s \<mapsto>
                         \<lparr>task_key = key, task_phase = AwaitFetch\<rparr>)\<rparr>))"
proof (cases "cacheKey u opts")
  case (Inl err)
  then have "execute p ua oa now s = (Threw err, s0)"
    unfolding execute_defaults [of p ua oa] u_def opts_def s0_def by (rule execute_throws)
  with Inl show ?thesis by simp
next
  case (Inr key)
  show ?thesis
  proof (cases "case cacheRef s key of None \<Rightarrow> True
                  | Some e \<Rightarrow> \<not> now - timestamp e < cacheTime p")
    case True
    with Inr have "execute p ua oa now s = start_fetch u opts key s0"
      unfolding execute_defaults [of p ua oa] u_def opts_def s0_def by (rule execute_miss)
    with Inr show ?thesis
      by (simp add: start_fetch_eq s0_def)
  next
    case False
    then obtain e where e: "cacheRef s key = Some e" "now - timestamp e < cacheTime p"
      by (auto split: option.splits)
    with Inr have "execute p ua oa now s
        = (Returned (Success (entry_data e)), s0\<lparr>data := entry_data e, error := None\<rparr>)"
      unfolding execute_defaults [of p ua oa] u_def opts_def s0_def by (rule execute_hit)
    with Inr e show ?thesis by simp
  qed
qed

subsection \<open>Suspended runs and their controllers\<close>

lemma execute_pending:
  assumes "pending (snd (execute p ua oa now s)) c = Some t"
  shows "c = next_controller s \<or> pending s c = Some t"
  using execute_cases [where s = s and ua = ua and p = p and oa = oa and now = now] assms by (auto split: if_splits)

lemma fetch_settled_pending:
  assumes "fetch_settled c x s = Some r" and "pending (snd r) c' = Some t"
  shows "\<exists>t'. pending s c' = Some t'"
  using assms
  by (auto simp: fetch_settled_def try_catch_def Let_def catch_handler_def
           split: option.splits phase.splits fetch_outcome.splits if_splits)

lemma json_settled_pending:
  assumes "json_settled c now s = Some r" and "pending (snd r) c' = Some t"
  shows "\<exists>t'. pending s c' = Some t'"
  using assms
  by (auto simp: json_settled_def try_catch_def Let_def catch_handler_def
           split: option.splits phase.splits sum.splits if_splits)

lemma execute_tracked:
  assumes "tracked s"
  shows "tracked (snd (execute p ua oa now s))"
  using assms by (auto simp: tracked_def execute_controllers dest!: execute_pending)

lemma step_tracked:
  assumes "tracked s"
  shows "tracked (step p ev s)"
proof (cases ev)
  case (Execute ua oa now)
  with assms show ?thesis
    by (simp add: execute_tracked)
next
  case (Refetch now)
  show ?thesis
  proof (cases "cacheKey (url p) (options p)")
    case (Inl err)
    with Refetch assms show ?thesis
      by (simp add: refetch_throws)
  next
    case (Inr key)
    from assms have "tracked (s\<lparr>cacheRef := (cacheRef s)(key := None)\<rparr>)"
      by (simp add: tracked_def)
    with Refetch Inr show ?thesis
      by (simp add: refetch_executes execute_tracked)
  qed
next
  case (FetchSettled c x)
  show ?thesis
  proof (cases "fetch_settled c x s")
    case None
    with FetchSettled assms show ?thesis by simp
  next
    case (Some r)
    with FetchSettled assms fetch_settled_pending [OF Some] show ?thesis
      by (fastforce simp: tracked_def fetch_settled_controllers [OF Some])
  qed
next
  case (JsonSettled c now)
  show ?thesis
  proof (cases "json_settled c now s")
    case None
    with JsonSettled assms show ?thesis by simp
  next
    case (Some r)
    with JsonSettled assms json_settled_pending [OF Some] show ?thesis
      by (fastforce simp: tracked_def json_settled_controllers [OF Some])
  qed
next
  case Cleanup
  with assms show ?thesis
    by (auto simp: tracked_def cleanup_def)
qed

lemma run_tracked: "tracked s \<Longrightarrow> tracked (run p evs s)"
  by (induction evs arbitrary: s) (simp_all add: step_tracked)

lemma tracked_initial: "tracked initial_state"
  by (simp add: tracked_def initial_state_def)

lemma cleanup_all_aborted: "tracked s \<Longrightarrow> all_aborted (cleanup s)"
  by (auto simp: tracked_def all_aborted_def cleanup_def)

lemma settlement_enabled:
  assumes "is_settlement ev" and "fire p ev s = Some r"
  shows "\<exists>c t. settles c ev \<and> pending s c = Some t"
  using assms
  by (cases ev) (auto simp: fetch_settled_def json_settled_def split: option.splits)

lemma fire_all_aborted:
  assumes "all_aborted s" and "is_settlement ev" and "fire p ev s = Some (out, s')"
  shows "out = Returned (Failure ''Request cancelled'')
       \<and> (\<exists>c. s' = s\<lparr>pending := (pending s)(c := None)\<rparr>)"
proof -
  from settlement_enabled [OF assms(2,3)] obtain c t
    where c: "settles c ev" "pending s c = Some t" by blast
  with assms(1) have "aborted s c"
    by (auto simp: all_aborted_def)
  from settle_aborted [OF c(1) this assms(3)] show ?thesis by blast
qed

lemma step_all_aborted:
  assumes "all_aborted s" and "is_settlement ev"
  shows "all_aborted (step p ev s) \<and> view (step p ev s) = view s
       \<and> cacheRef (step p ev s) = cacheRef s \<and> fetch_calls (step p ev s) = fetch_calls s"
proof (cases "fire p ev s")
  case None
  with assms show ?thesis by (cases ev) simp_all
next
  case (Some r)
  with fire_all_aborted [OF assms, of p "fst r" "snd r"]
  obtain c where "snd r = s\<lparr>pending := (pending s)(c := None)\<rparr>" by auto
  moreover from Some assms(2) have "step p ev s = snd r" by (cases ev) simp_all
  ultimately show ?thesis
    using assms(1) by (auto simp: all_aborted_def view_def split: if_splits)
qed

lemma run_all_aborted:
  assumes "all_aborted s" and "\<forall>e \<in> set evs. is_settlement e"
  shows "all_aborted (run p evs s) \<and> view (run p evs s) = view s
       \<and> cacheRef (run p evs s) = cacheRef s \<and> fetch_calls (run p evs s) = fetch_calls s"
  using assms
proof (induction evs arbitrary: s)
  case Nil
  then show ?case by simp
next
  case (Cons ev evs)
  then have "is_settlement ev" and rest: "\<forall>e \<in> set evs. is_settlement e"
    by simp_all
  from step_all_aborted [OF Cons.prems(1) this(1), of p] Cons.IH [OF _ rest, of "step p ev s"]
  show ?case by simp
qed


subsection \<open>A superseded run writes nothing\<close>

text \<open>
  Let controller \<open>c\<close> be current in a reachable state when a run of \<open>execute\<close> starts.
  Whatever happens afterwards, the state, the cache and the calls of \<open>fetch\<close> at the end
  are those of the same history with the settlements of the run of \<open>c\<close> left out.
\<close>

lemma superseded_settlements_change_nothing:
  assumes "abortControllerRef (run p before initial_state) = Some c"
    and "starts_execute p ev"
  shows "view (run p (before @ ev # after) initial_state)
           = view (run p (before @ ev # filter (\<lambda>e. \<not> settles c e) after) initial_state)"
    and "cacheRef (run p (before @ ev # after) initial_state)
           = cacheRef (run p (before @ ev # filter (\<lambda>e. \<not> settles c e) after) initial_state)"
    and "fetch_calls (run p (before @ ev # after) initial_state)
           = fetch_calls (run p (before @ ev # filter (\<lambda>e. \<not> settles c e) after) initial_state)"
proof -
  let ?s = "run p before initial_state"
  have "allocated ?s"
    by (simp add: run_allocated allocated_initial)
  from call_aborts_current [OF this assms]
  have "aborted (step p ev ?s) c" and "c < next_controller (step p ev ?s)"
    by simp_all
  with agree_except_refl
  have a: "agree_except c (run p after (step p ev ?s))
          (run p (filter (\<lambda>e. \<not> settles c e) after) (step p ev ?s))"
    by (rule run_agree)
  from agree_except_fields(1-3) [OF a]
  show "view (run p (before @ ev # after) initial_state)
           = view (run p (before @ ev # filter (\<lambda>e. \<not> settles c e) after) initial_state)"
    and "cacheRef (run p (before @ ev # after) initial_state)
           = cacheRef (run p (before @ ev # filter (\<lambda>e. \<not> settles c e) after) initial_state)"
    and "fetch_calls (run p (before @ ev # after) initial_state)
           = fetch_calls (run p (before @ ev # filter (\<lambda>e. \<not> settles c e) after) initial_state)"
    by (simp_all add: run_append)
qed

section \<open>Properties of the request executor\<close>

text \<open>
  C1. A call of \<open>execute\<close> that finds a cache entry younger than the time-to-live
  calls \<open>fetch\<close> no more, returns the cached payload as a success, sets \<open>data\<close> and
  clears \<open>error\<close>; it does not write \<open>loading\<close>. Here the instance of post 1 loads
  its post (time 0 to 10), is asked for post 2 at time 20 and, while that request is in
  flight, for post 1 again at time 30. The third call aborts the second and is served
  from the cache, and \<open>loading\<close> is still true; when the aborted request settles,
  nothing is pending and \<open>loading\<close> remains true.
\<close>

theorem execute_cache_hit_keeps_loading:
  "(let s = run post1 [Execute None None 0,
                      FetchSettled 0 (Resolves (ok_response (JStr ''one''))),
                      JsonSettled 0 10,
                      Execute (Some ''/api/posts/2'') None 20] initial_state;
        r = execute post1 None None 30 s;
        s' = run post1 [FetchSettled 1 (Resolves (ok_response (JStr ''two'')))] (snd r)
    in view s = (JStr ''one'', True, None)
     \<and> fst r = Returned (Success (JStr ''one''))
     \<and> length (fetch_calls (snd r)) = length (fetch_calls s)
     \<and> view (snd r) = (JStr ''one'', True, None)
     \<and> pending s' = Map.empty
     \<and> view s' = (JStr ''one'', True, None))"
  by (simp add: example_defs hook_defs Let_def)

text \<open>
  C2. Two overlapping calls of \<open>execute\<close> on the instance of post 1, which has loaded and
  cached its post: post 2 is asked for at time 20 (the earlier call, a cache miss that
  sets \<open>loading\<close>), and post 1 again at time 30, while that request is in flight (the
  later call, a cache hit). The later call aborts the earlier one, and the resolution of
  the earlier one returns the cancellation and writes nothing. Yet the final state is
  not that of the later call: \<open>loading\<close> is true with nothing pending, where the later
  call alone leaves it false. The cache-hit branch does not clear the \<open>loading\<close> that the
  earlier call has set.
\<close>

theorem overlapping_cache_hit_leaves_earlier_loading:
  "(let s0 = run post1 [Execute None None 0,
                       FetchSettled 0 (Resolves (ok_response (JStr ''one''))),
                       JsonSettled 0 10] initial_state;
        earlier = Execute (Some ''/api/posts/2'') None 20;
        later = Execute None None 30;
        resolution = FetchSettled 1 (Resolves (ok_response (JStr ''two'')))
    in view s0 = (JStr ''one'', False, None)
     \<and> map_option fst (fire post1 later (run post1 [earlier] s0))
           = Some (Returned (Success (JStr ''one'')))
     \<and> map_option fst (fire post1 resolution (run post1 [earlier, later] s0))
           = Some (Returned (Failure ''Request cancelled''))
     \<and> pending (run post1 [earlier, later, resolution] s0) = Map.empty
     \<and> view (run post1 [earlier, later, resolution] s0) = (JStr ''one'', True, None)
     \<and> view (run post1 [later] s0) = (JStr ''one'', False, None))"
  by (simp add: example_defs hook_defs Let_def)




text \<open>
  C4. When the cache holds an entry under the key of a call and the entry is as old as
  the time-to-live or older,
  \<open>execute\<close> calls \<open>fetch\<close> once more and waits. When that request succeeds (an \<open>ok\<close>
  response whose body parses to \<open>v\<close>, read at time \<open>now'\<close>), the entry under the key
  is exactly the new payload with the time \<open>now'\<close>, every other entry is as before,
  and the state shows the new payload, not loading, without error.
\<close>

theorem expired_entry_is_refetched_and_replaced:
  fixes p :: params and ua :: "string option" and oa :: "jsobj option"
  defines "u \<equiv> or_default ua (url p)" and "opts \<equiv> or_default oa (options p)"
  assumes "cacheKey u opts = Inr key" and "cacheRef s key = Some e"
    and "cacheTime p \<le> now - timestamp e"
  shows "\<exists>s1. execute p ua oa now s = (Awaiting (next_controller s), s1)
          \<and> fetch_calls s1 = fetch_calls s @ [build_request u opts (next_controller s)]
          \<and> (\<forall>r v now'. ok r \<and> json r = Inr v \<longrightarrow>
                (\<exists>s2 s3. fetch_settled (next_controller s) (Resolves r) s1
                             = Some (Awaiting (next_controller s), s2)
                    \<and> json_settled (next_controller s) now' s2 = Some (Returned (Success v), s3)
                    \<and> cacheRef s3 = (cacheRef s)(key \<mapsto> \<lparr>entry_data = v, timestamp = now'\<rparr>)
                    \<and> view s3 = (v, False, None)
                    \<and> fetch_calls s3 = fetch_calls s1))"
proof -
  let ?c = "next_controller s"
  let ?s0 = "new_controller (abort_current s)"
  let ?t = "\<lparr>task_key = key, task_phase = AwaitFetch\<rparr>"
  let ?s1 = "?s0\<lparr>loading := True, error := None,
        fetch_calls := fetch_calls ?s0 @ [build_request u opts ?c],
        pending := (pending ?s0)(?c \<mapsto> ?t)\<rparr>"
  have ex: "execute p ua oa now s = (Awaiting ?c, ?s1)"
    using assms(3-5) unfolding execute_defaults [of p ua oa] u_def [symmetric] opts_def [symmetric]
    by (simp add: execute_miss start_fetch_eq)
  have settle: "\<exists>s2 s3. fetch_settled ?c (Resolves r) ?s1 = Some (Awaiting ?c, s2)
                    \<and> json_settled ?c now' s2 = Some (Returned (Success v), s3)
                    \<and> cacheRef s3 = (cacheRef s)(key \<mapsto> \<lparr>entry_data = v, timestamp = now'\<rparr>)
                    \<and> view s3 = (v, False, None)
                    \<and> fetch_calls s3 = fetch_calls ?s1"
    if "ok r" and "json r = Inr v" for r v now'
  proof -
    let ?s2 = "?s1\<lparr>pending := (pending ?s1)(?c \<mapsto> ?t\<lparr>task_phase := AwaitJson r\<rparr>)\<rparr>"
    have f: "fetch_settled ?c (Resolves r) ?s1 = Some (Awaiting ?c, ?s2)"
      by (rule fetch_settled_ok [where t = ?t]) (simp_all add: that)
    have j: "json_settled ?c now' ?s2 =
           Some (Returned (Success v),
                 ?s2\<lparr>pending := (pending ?s2)(?c := None),
                   cacheRef := (cacheRef ?s2)(task_key (?t\<lparr>task_phase := AwaitJson r\<rparr>) \<mapsto> \<lparr>entry_data = v, timestamp = now'\<rparr>),
                   data := v, loading := False\<rparr>)"
      by (rule json_settled_value [where r = r]) (simp_all add: that)
    show ?thesis
      by (intro exI conjI, rule f, rule j) (simp_all add: view_def)
  qed
  show ?thesis
    unfolding ex using settle by simp
qed

theorem expired_entry_is_refetched_and_replaced_witness:
  "(let s = run post1 [Execute None None 0,
                      FetchSettled 0 (Resolves (ok_response (JStr ''old''))),
                      JsonSettled 0 10] initial_state;
        s' = run post1 [Execute None None 300010,
                       FetchSettled 1 (Resolves (ok_response (JStr ''new''))),
                       JsonSettled 1 300020] s
    in cacheRef s ''/api/posts/1-{}'' = Some \<lparr>entry_data = JStr ''old'', timestamp = 10\<rparr>
     \<and> cacheTime post1 \<le> 300010 - 10
     \<and> length (fetch_calls s) = 1
     \<and> length (fetch_calls s') = 2
     \<and> cacheRef s' ''/api/posts/1-{}'' = Some \<lparr>entry_data = JStr ''new'', timestamp = 300020\<rparr>
     \<and> view s' = (JStr ''new'', False, None))"
proof -
  define s where "s = run post1 [Execute None None 0,
                      FetchSettled 0 (Resolves (ok_response (JStr ''old''))),
                      JsonSettled 0 10] initial_state"
  have k: "cacheKey (or_default None (url post1)) (or_default None (options post1))
      = Inr ''/api/posts/1-{}''"
    by (simp add: post1_fields key_post1)
  have c: "cacheRef s ''/api/posts/1-{}'' = Some \<lparr>entry_data = JStr ''old'', timestamp = 10\<rparr>"
    and n: "next_controller s = 1" and l: "length (fetch_calls s) = 1"
    by (simp_all add: s_def example_defs hook_defs Let_def)
  have t: "cacheTime post1 \<le> 300010 - timestamp \<lparr>entry_data = JStr ''old'', timestamp = 10\<rparr>"
    by (simp add: example_defs)
  from expired_entry_is_refetched_and_replaced [OF k c t]
  obtain s1 where e: "execute post1 None None 300010 s = (Awaiting (next_controller s), s1)"
    and f: "length (fetch_calls s1) = Suc (length (fetch_calls s))"
    and a: "\<forall>r v now'. ok r \<and> json r = Inr v \<longrightarrow>
                (\<exists>s2 s3. fetch_settled (next_controller s) (Resolves r) s1
                             = Some (Awaiting (next_controller s), s2)
                    \<and> json_settled (next_controller s) now' s2 = Some (Returned (Success v), s3)
                    \<and> cacheRef s3 = (cacheRef s)(''/api/posts/1-{}'' \<mapsto> \<lparr>entry_data = v, timestamp = now'\<rparr>)
                    \<and> view s3 = (v, False, None)
                    \<and> fetch_calls s3 = fetch_calls s1)"
    by (auto simp: post1_fields)
  have "ok (ok_response (JStr ''new'')) \<and> json (ok_response (JStr ''new'')) = Inr (JStr ''new'')"
    by (simp add: ok_response_def)
  with a obtain s2 s3 where
    "fetch_settled (next_controller s) (Resolves (ok_response (JStr ''new''))) s1
                             = Some (Awaiting (next_controller s), s2)"
    "json_settled (next_controller s) 300020 s2 = Some (Returned (Success (JStr ''new'')), s3)"
    "cacheRef s3 = (cacheRef s)(''/api/posts/1-{}'' \<mapsto> \<lparr>entry_data = JStr ''new'', timestamp = 300020\<rparr>)"
    "view s3 = (JStr ''new'', False, None)"
    "fetch_calls s3 = fetch_calls s1"
    by blast
  with e have
    "run post1 [Execute None None 300010,
                       FetchSettled 1 (Resolves (ok_response (JStr ''new''))),
                       JsonSettled 1 300020] s = s3"
    using n by simp
  then show ?thesis
    unfolding s_def [symmetric] Let_def
    using c t l \<open>cacheRef s3 = _\<close> \<open>view s3 = _\<close> \<open>fetch_calls s3 = _\<close> f
    by simp
qed

text \<open>
  C5. Let controller \<open>c\<close> be current in a reachable state when a run of \<open>execute\<close> starts,
  and let the run of \<open>c\<close> still be suspended after that call and any further events.
  Then its promise can settle, and whatever the transport has to deliver, while it waits
  for \<open>fetch\<close> or for \<open>response.json()\<close>, the run returns the failure
  \<open>Request cancelled\<close> and leaves \<open>data\<close>, \<open>loading\<close>, \<open>error\<close>, the cache and the calls of
  \<open>fetch\<close> as they are.
\<close>

theorem cancelled_call_leaves_state:
  assumes "abortControllerRef (run p before initial_state) = Some c"
    and "starts_execute p ev"
    and "pending (run p (before @ ev # after) initial_state) c = Some t"
  shows "(let s = run p (before @ ev # after) initial_state
          in (task_phase t = AwaitFetch \<longrightarrow>
                (\<forall>x. \<exists>s'. fetch_settled c x s = Some (Returned (Failure ''Request cancelled''), s')
                    \<and> view s' = view s \<and> cacheRef s' = cacheRef s
                    \<and> fetch_calls s' = fetch_calls s \<and> pending s' c = None))
           \<and> (\<forall>r. task_phase t = AwaitJson r \<longrightarrow>
                (\<forall>now. \<exists>s'. json_settled c now s = Some (Returned (Failure ''Request cancelled''), s')
                    \<and> view s' = view s \<and> cacheRef s' = cacheRef s
                    \<and> fetch_calls s' = fetch_calls s \<and> pending s' c = None)))"
proof -
  let ?init = "run p before initial_state"
  let ?s = "run p (before @ ev # after) initial_state"
  have "allocated ?init"
    by (simp add: run_allocated allocated_initial)
  from call_aborts_current [OF this assms(1,2)]
  have "aborted (step p ev ?init) c \<and> c < next_controller (step p ev ?init)" .
  then have "aborted (run p after (step p ev ?init)) c"
    using run_aborted_stable by blast
  then have a: "aborted ?s c"
    by (simp add: run_append)
  have "\<exists>s'. fetch_settled c x ?s = Some (Returned (Failure ''Request cancelled''), s')
          \<and> view s' = view ?s \<and> cacheRef s' = cacheRef ?s
          \<and> fetch_calls s' = fetch_calls ?s \<and> pending s' c = None"
    if "task_phase t = AwaitFetch" for x
    using fetch_settled_aborted [OF assms(3) that a, of x] by (simp add: view_def)
  moreover
  have "\<exists>s'. json_settled c now ?s = Some (Returned (Failure ''Request cancelled''), s')
          \<and> view s' = view ?s \<and> cacheRef s' = cacheRef ?s
          \<and> fetch_calls s' = fetch_calls ?s \<and> pending s' c = None"
    if "task_phase t = AwaitJson r" for r now
    using json_settled_aborted [OF assms(3) that a, of now] by (simp add: view_def)
  ultimately show ?thesis
    unfolding Let_def by blast
qed

theorem cancelled_call_leaves_state_witness:
  "abortControllerRef (run post1 [Execute None None 0] initial_state) = Some 0
   \<and> starts_execute post1 (Execute (Some ''/api/posts/2'') None 5)
   \<and> (\<exists>s'. fetch_settled 0 (Resolves (ok_response (JStr ''one'')))
               (run post1 ([Execute None None 0] @ Execute (Some ''/api/posts/2'') None 5 # [])
                  initial_state)
             = Some (Returned (Failure ''Request cancelled''), s')
          \<and> view s' = (JNull, True, None)
          \<and> cacheRef s' ''/api/posts/1-{}'' = None)
   \<and> abortControllerRef
         (run post1 [Execute None None 0, FetchSettled 0 (Resolves (ok_response (JStr ''one'')))]
            initial_state) = Some 0
   \<and> (\<exists>s'. json_settled 0 7
               (run post1 ([Execute None None 0,
                            FetchSettled 0 (Resolves (ok_response (JStr ''one'')))]
                           @ Execute (Some ''/api/posts/2'') None 5 # []) initial_state)
             = Some (Returned (Failure ''Request cancelled''), s')
          \<and> view s' = (JNull, True, None)
          \<and> cacheRef s' ''/api/posts/1-{}'' = None)"
proof -
  let ?ev = "Execute (Some ''/api/posts/2'') None 5"
  let ?b1 = "[Execute None None 0]"
  let ?b2 = "[Execute None None 0, FetchSettled 0 (Resolves (ok_response (JStr ''one'')))]"
  let ?s1 = "run post1 (?b1 @ ?ev # []) initial_state"
  let ?s2 = "run post1 (?b2 @ ?ev # []) initial_state"
  let ?t1 = "\<lparr>task_key = ''/api/posts/1-{}'', task_phase = AwaitFetch\<rparr>"
  let ?t2 = "\<lparr>task_key = ''/api/posts/1-{}'',
             task_phase = AwaitJson (ok_response (JStr ''one''))\<rparr>"
  have e: "starts_execute post1 ?ev"
    by simp
  have c1: "abortControllerRef (run post1 ?b1 initial_state) = Some 0"
    and c2: "abortControllerRef (run post1 ?b2 initial_state) = Some 0"
    by (simp_all add: example_defs hook_defs Let_def)
  have p1: "pending ?s1 0 = Some ?t1" and p2: "pending ?s2 0 = Some ?t2"
    by (simp_all add: example_defs hook_defs Let_def)
  have v1: "view ?s1 = (JNull, True, None)" "cacheRef ?s1 ''/api/posts/1-{}'' = None"
    and v2: "view ?s2 = (JNull, True, None)" "cacheRef ?s2 ''/api/posts/1-{}'' = None"
    by (simp_all add: example_defs hook_defs Let_def)
  have "\<exists>s'. fetch_settled 0 (Resolves (ok_response (JStr ''one''))) ?s1
             = Some (Returned (Failure ''Request cancelled''), s')
          \<and> view s' = (JNull, True, None) \<and> cacheRef s' ''/api/posts/1-{}'' = None"
    using cancelled_call_leaves_state [OF c1 e p1] v1 unfolding Let_def
    by (metis task.select_convs(2))
  moreover
  have "\<exists>s'. json_settled 0 7 ?s2 = Some (Returned (Failure ''Request cancelled''), s')
          \<and> view s' = (JNull, True, None) \<and> cacheRef s' ''/api/posts/1-{}'' = None"
    using cancelled_call_leaves_state [OF c2 e p2] v2 unfolding Let_def
    by (metis task.select_convs(2))
  ultimately show ?thesis
    using c1 c2 e by (intro conjI)
qed

text \<open>
  C6. When the response of a request that is waited for and not aborted is not \<open>ok\<close>,
  the run throws an error whose message ends in the decimal status code, and the handler
  writes that message to \<open>error\<close>, clears \<open>loading\<close>, leaves \<open>data\<close> and the cache as
  they were and returns a failure with the same message. For a first request answered
  with status 404, \<open>data\<close> is still \<open>null\<close>.
\<close>

theorem http_error_status_sets_error:
  assumes "pending s c = Some t" and "task_phase t = AwaitFetch" and "\<not> aborted s c"
    and "\<not> ok r"
  shows "\<exists>s'. fetch_settled c (Resolves r) s
              = Some (Returned (Failure (''HTTP error! status: '' @ nat_to_string (status r))), s')
          \<and> error s' = Some (''HTTP error! status: '' @ nat_to_string (status r))
          \<and> loading s' = False
          \<and> data s' = data s
          \<and> cacheRef s' = cacheRef s
          \<and> fetch_calls s' = fetch_calls s
          \<and> pending s' c = None"
  using fetch_settled_http_error [OF assms] by simp

theorem http_error_status_sets_error_witness:
  "(let s = run post1 [Execute None None 0] initial_state;
        r = fetch_settled 0 (Resolves not_found) s
    in pending s 0 = Some \<lparr>task_key = ''/api/posts/1-{}'', task_phase = AwaitFetch\<rparr>
     \<and> \<not> aborted s 0 \<and> \<not> ok not_found
     \<and> map_option fst r = Some (Returned (Failure ''HTTP error! status: 404''))
     \<and> map_option (view \<circ> snd) r = Some (JNull, False, Some ''HTTP error! status: 404''))"
proof -
  define s where "s = run post1 [Execute None None 0] initial_state"
  have p: "pending s 0 = Some \<lparr>task_key = ''/api/posts/1-{}'', task_phase = AwaitFetch\<rparr>"
    and ph: "task_phase \<lparr>task_key = ''/api/posts/1-{}'', task_phase = AwaitFetch\<rparr> = AwaitFetch"
    and a: "\<not> aborted s 0" and d: "data s = JNull"
    by (simp_all add: s_def example_defs hook_defs Let_def)
  have k: "\<not> ok not_found" and st: "nat_to_string (status not_found) = ''404''"
    by (simp_all add: not_found_def nat_to_string.simps digit_char_def)
  from http_error_status_sets_error [OF p ph a k] p a k d st
  show ?thesis
    unfolding s_def [symmetric] Let_def by (auto simp: view_def)
qed

text \<open>
  C7. The cache key is computed before the \<open>try\<close> block. With options that hold a BigInt
  or a circular structure \<open>JSON.stringify\<close> throws there, and \<open>execute\<close> rejects: the
  error is in no returned result and is not written to \<open>error\<close>.
\<close>

theorem execute_unserialisable_options_counterexample:
  "execute post1 None (Some [(''id'', JBigInt 1)]) 0 initial_state
     = (Threw (JsError ''TypeError'' ''Do not know how to serialize a BigInt''),
        new_controller initial_state)
   \<and> execute post1 None (Some [(''self'', JCycle)]) 0 initial_state
     = (Threw (JsError ''TypeError'' ''Converting circular structure to JSON''),
        new_controller initial_state)
   \<and> error (new_controller initial_state) = None"
  by (simp add: execute_def cacheKey_def Let_def abort_current_def initial_state_def
        new_controller_def)

text \<open>
  C7, amended. When \<open>JSON.stringify\<close> returns on the options of a call, \<open>execute\<close> runs
  to a success from the cache, without a call of \<open>fetch\<close>, or to its \<open>await\<close>, with one
  call of \<open>fetch\<close>. Every suspended run resumes when its promise settles, and it never
  throws. While it waits for \<open>fetch\<close>: an abort and a rejection named \<open>AbortError\<close> return
  the cancellation and leave the state; any other rejection and a response that is not
  \<open>ok\<close> return a failure with the message of the error, write that message to \<open>error\<close>
  and clear \<open>loading\<close>; an \<open>ok\<close> response suspends the run at \<open>response.json()\<close>. While
  it waits for \<open>response.json()\<close>: an abort returns the cancellation, a body that does
  not parse returns the failure and writes it to \<open>error\<close>, a body that parses returns
  the success. No resumption calls \<open>fetch\<close>: nothing is retried.
\<close>

theorem execute_captures_every_failure:
  "(\<forall>key. cacheKey (or_default ua (url p)) (or_default oa (options p)) = Inr key \<longrightarrow>
      (\<exists>out s'. execute p ua oa now s = (out, s') \<and> (\<forall>err. out \<noteq> Threw err)
         \<and> ((\<exists>v. out = Returned (Success v)) \<and> fetch_calls s' = fetch_calls s
            \<or> out = Awaiting (next_controller s)
               \<and> length (fetch_calls s') = Suc (length (fetch_calls s))
               \<and> pending s' (next_controller s) = Some \<lparr>task_key = key, task_phase = AwaitFetch\<rparr>)))
   \<and> (\<forall>c t x. pending s c = Some t \<and> task_phase t = AwaitFetch \<longrightarrow>
        (\<exists>out s'. fetch_settled c x s = Some (out, s') \<and> (\<forall>err. out \<noteq> Threw err)
           \<and> fetch_calls s' = fetch_calls s
           \<and> (if aborted s c
               then out = Returned (Failure ''Request cancelled'') \<and> view s' = view s
               else case x of
                      Rejects err \<Rightarrow>
                        if name err = ''AbortError''
                        then out = Returned (Failure ''Request cancelled'') \<and> view s' = view s
                        else out = Returned (Failure (message err))
                           \<and> view s' = (data s, False, Some (message err))
                    | Resolves r \<Rightarrow>
                        if ok r
                        then out = Awaiting c \<and> view s' = view s
                           \<and> pending s' c = Some (t\<lparr>task_phase := AwaitJson r\<rparr>)
                        else out = Returned (Failure
                                     (''HTTP error! status: '' @ nat_to_string (status r)))
                           \<and> view s' = (data s, False,
                                Some (''HTTP error! status: '' @ nat_to_string (status r))))))
   \<and> (\<forall>c t r now'. pending s c = Some t \<and> task_phase t = AwaitJson r \<longrightarrow>
        (\<exists>out s'. json_settled c now' s = Some (out, s') \<and> (\<forall>err. out \<noteq> Threw err)
           \<and> fetch_calls s' = fetch_calls s
           \<and> (if aborted s c
               then out = Returned (Failure ''Request cancelled'') \<and> view s' = view s
               else case json r of
                      Inl err \<Rightarrow>
                        if name err = ''AbortError''
                        then out = Returned (Failure ''Request cancelled'') \<and> view s' = view s
                        else out = Returned (Failure (message err))
                           \<and> view s' = (data s, False, Some (message err))
                    | Inr v \<Rightarrow>
                        out = Returned (Success v) \<and> view s' = (v, False, error s))))"
proof (intro conjI allI impI)
  fix key
  assume "cacheKey (or_default ua (url p)) (or_default oa (options p)) = Inr key"
  with execute_cases [where s = s and ua = ua and p = p and oa = oa and now = now]
  show "\<exists>out s'. execute p ua oa now s = (out, s') \<and> (\<forall>err. out \<noteq> Threw err)
         \<and> ((\<exists>v. out = Returned (Success v)) \<and> fetch_calls s' = fetch_calls s
            \<or> out = Awaiting (next_controller s)
               \<and> length (fetch_calls s') = Suc (length (fetch_calls s))
               \<and> pending s' (next_controller s) = Some \<lparr>task_key = key, task_phase = AwaitFetch\<rparr>)"
    by auto
next
  fix c t x
  assume pt: "pending s c = Some t \<and> task_phase t = AwaitFetch"
  then have p: "pending s c = Some t" and t: "task_phase t = AwaitFetch"
    by simp_all
  show "\<exists>out s'. fetch_settled c x s = Some (out, s') \<and> (\<forall>err. out \<noteq> Threw err)
           \<and> fetch_calls s' = fetch_calls s
           \<and> (if aborted s c
               then out = Returned (Failure ''Request cancelled'') \<and> view s' = view s
               else case x of
                      Rejects err \<Rightarrow>
                        if name err = ''AbortError''
                        then out = Returned (Failure ''Request cancelled'') \<and> view s' = view s
                        else out = Returned (Failure (message err))
                           \<and> view s' = (data s, False, Some (message err))
                    | Resolves r \<Rightarrow>
                        if ok r
                        then out = Awaiting c \<and> view s' = view s
                           \<and> pending s' c = Some (t\<lparr>task_phase := AwaitJson r\<rparr>)
                        else out = Returned (Failure
                                     (''HTTP error! status: '' @ nat_to_string (status r)))
                           \<and> view s' = (data s, False,
                                Some (''HTTP error! status: '' @ nat_to_string (status r))))"
  proof (cases "aborted s c")
    case True
    with fetch_settled_aborted [OF p t True, of x] show ?thesis
      by (simp add: view_def)
  next
    case False
    show ?thesis
    proof (cases x)
      case (Rejects err)
      with False fetch_settled_rejected [OF p t False, of err] show ?thesis
        by (cases "name err = ''AbortError''")
           (simp_all add: catch_handler_failure catch_handler_cancelled view_def)
    next
      case (Resolves r)
      with False fetch_settled_ok [OF p t False, of r] fetch_settled_http_error [OF p t False, of r]
      show ?thesis
        by (cases "ok r") (simp_all add: view_def)
    qed
  qed
next
  fix c t r now'
  assume pt: "pending s c = Some t \<and> task_phase t = AwaitJson r"
  then have p: "pending s c = Some t" and t: "task_phase t = AwaitJson r"
    by simp_all
  show "\<exists>out s'. json_settled c now' s = Some (out, s') \<and> (\<forall>err. out \<noteq> Threw err)
           \<and> fetch_calls s' = fetch_calls s
           \<and> (if aborted s c
               then out = Returned (Failure ''Request cancelled'') \<and> view s' = view s
               else case json r of
                      Inl err \<Rightarrow>
                        if name err = ''AbortError''
                        then out = Returned (Failure ''Request cancelled'') \<and> view s' = view s
                        else out = Returned (Failure (message err))
                           \<and> view s' = (data s, False, Some (message err))
                    | Inr v \<Rightarrow>
                        out = Returned (Success v) \<and> view s' = (v, False, error s))"
  proof (cases "aborted s c")
    case True
    with json_settled_aborted [OF p t True, of now'] show ?thesis
      by (simp add: view_def)
  next
    case False
    show ?thesis
    proof (cases "json r")
      case (Inl err)
      with False json_settled_error [OF p t False Inl, of now'] show ?thesis
        by (cases "name err = ''AbortError''")
           (simp_all add: catch_handler_failure catch_handler_cancelled view_def)
    next
      case (Inr v)
      with False json_settled_value [OF p t False Inr, of now'] show ?thesis
        by (simp add: view_def)
    qed
  qed
qed

theorem execute_captures_every_failure_witness:
  "(let s = run post1 [Execute None None 0] initial_state;
        s2 = run post1 [Execute None None 0,
               FetchSettled 0 (Resolves \<lparr>ok = True, status = 200,
                 json = Inl (JsError ''SyntaxError'' ''Unexpected end of JSON input'')\<rparr>)]
               initial_state
    in cacheKey (or_default None (url post1)) (or_default None (options post1))
         = Inr ''/api/posts/1-{}''
     \<and> fst (execute post1 None None 0 initial_state) = Awaiting 0
     \<and> length (fetch_calls s) = 1
     \<and> pending s 0 = Some \<lparr>task_key = ''/api/posts/1-{}'', task_phase = AwaitFetch\<rparr>
     \<and> (\<exists>s'. fetch_settled 0 (Rejects (JsError ''TypeError'' ''Failed to fetch'')) s
                = Some (Returned (Failure ''Failed to fetch''), s')
             \<and> view s' = (JNull, False, Some ''Failed to fetch'')
             \<and> length (fetch_calls s') = 1)
     \<and> (\<exists>s'. json_settled 0 5 s2
                = Some (Returned (Failure ''Unexpected end of JSON input''), s')
             \<and> view s' = (JNull, False, Some ''Unexpected end of JSON input'')
             \<and> length (fetch_calls s') = 1))"
proof -
  let ?r = "\<lparr>ok = True, status = 200,
             json = Inl (JsError ''SyntaxError'' ''Unexpected end of JSON input'')\<rparr>"
  let ?t = "\<lparr>task_key = ''/api/posts/1-{}'', task_phase = AwaitFetch\<rparr>"
  let ?t2 = "\<lparr>task_key = ''/api/posts/1-{}'', task_phase = AwaitJson ?r\<rparr>"
  define s where "s = run post1 [Execute None None 0] initial_state"
  define s2 where "s2 = run post1 [Execute None None 0, FetchSettled 0 (Resolves ?r)] initial_state"
  have k: "cacheKey (or_default None (url post1)) (or_default None (options post1))
         = Inr ''/api/posts/1-{}''"
    by (simp add: post1_fields key_post1)
  have p: "pending s 0 = Some ?t" and a: "\<not> aborted s 0" and d: "data s = JNull"
    and l: "length (fetch_calls s) = 1"
    by (simp_all add: s_def example_defs hook_defs Let_def)
  have p2: "pending s2 0 = Some ?t2" and a2: "\<not> aborted s2 0" and d2: "data s2 = JNull"
    and l2: "length (fetch_calls s2) = 1"
    by (simp_all add: s2_def example_defs hook_defs Let_def)
  have c1: "fst (execute post1 None None 0 initial_state) = Awaiting 0"
    by (simp add: example_defs hook_defs Let_def)
  have c2: "\<exists>s'. fetch_settled 0 (Rejects (JsError ''TypeError'' ''Failed to fetch'')) s
                = Some (Returned (Failure ''Failed to fetch''), s')
             \<and> view s' = (JNull, False, Some ''Failed to fetch'')
             \<and> length (fetch_calls s') = 1"
    using execute_captures_every_failure [of None post1 None 0 s,
        THEN conjunct2, THEN conjunct1, rule_format,
        where c = 0 and t = ?t and x = "Rejects (JsError ''TypeError'' ''Failed to fetch'')"]
      p a d l
    by auto
  have c3: "\<exists>s'. json_settled 0 5 s2
                = Some (Returned (Failure ''Unexpected end of JSON input''), s')
             \<and> view s' = (JNull, False, Some ''Unexpected end of JSON input'')
             \<and> length (fetch_calls s') = 1"
    using execute_captures_every_failure [of None post1 None 0 s2,
        THEN conjunct2, THEN conjunct2, rule_format,
        where c = 0 and t = ?t2 and r = ?r and now' = 5]
      p2 a2 d2 l2
    by auto
  from k c1 l p c2 c3 show ?thesis
    unfolding s_def [symmetric] s2_def [symmetric] Let_def by (intro conjI)
qed

text \<open>
  C8. After the cleanup of the effect in a reachable state every suspended run belongs
  to an aborted controller. Whatever promises settle afterwards, \<open>data\<close>, \<open>loading\<close>,
  \<open>error\<close>, the cache and the calls of \<open>fetch\<close> stay as the cleanup left them, and every
  run that resumes returns the failure \<open>Request cancelled\<close>; none throws.
\<close>

theorem teardown_cancels_in_flight:
  assumes "\<forall>e \<in> set after. is_settlement e"
  shows "(let s0 = run p (before @ [Cleanup]) initial_state;
              s1 = run p after s0
          in (\<forall>c t. pending s0 c = Some t \<longrightarrow> aborted s0 c)
           \<and> view s1 = view s0 \<and> cacheRef s1 = cacheRef s0 \<and> fetch_calls s1 = fetch_calls s0
           \<and> (\<forall>e out s2. is_settlement e \<and> fire p e s1 = Some (out, s2) \<longrightarrow>
                 out = Returned (Failure ''Request cancelled'') \<and> view s2 = view s0))"
proof -
  let ?s0 = "run p (before @ [Cleanup]) initial_state"
  let ?s1 = "run p after ?s0"
  have "tracked (run p before initial_state)"
    by (simp add: run_tracked tracked_initial)
  then have a0: "all_aborted ?s0"
    by (simp add: run_append cleanup_all_aborted)
  from run_all_aborted [OF a0 assms, of p]
  have a1: "all_aborted ?s1" and same: "view ?s1 = view ?s0" "cacheRef ?s1 = cacheRef ?s0"
    "fetch_calls ?s1 = fetch_calls ?s0"
    by simp_all
  have "out = Returned (Failure ''Request cancelled'') \<and> view s2 = view ?s0"
    if "is_settlement e" and "fire p e ?s1 = Some (out, s2)" for e out s2
    using fire_all_aborted [OF a1 that] same(1) by (auto simp: view_def)
  with a0 same show ?thesis
    unfolding Let_def all_aborted_def by blast
qed

theorem teardown_cancels_in_flight_witness:
  "(let s0 = run post1 ([Execute None None 0] @ [Cleanup]) initial_state;
        s1 = run post1 [FetchSettled 0 (Resolves (ok_response (JStr ''one''))), JsonSettled 0 5] s0
    in pending s0 0 = Some \<lparr>task_key = ''/api/posts/1-{}'', task_phase = AwaitFetch\<rparr>
     \<and> aborted s0 0
     \<and> view s0 = (JNull, True, None)
     \<and> view s1 = (JNull, True, None)
     \<and> cacheRef s1 = cacheRef s0)"
proof -
  let ?after = "[FetchSettled 0 (Resolves (ok_response (JStr ''one''))), JsonSettled 0 5]"
  let ?s0 = "run post1 ([Execute None None 0] @ [Cleanup]) initial_state"
  have a: "\<forall>e \<in> set ?after. is_settlement e"
    by simp
  have p: "pending ?s0 0 = Some \<lparr>task_key = ''/api/posts/1-{}'', task_phase = AwaitFetch\<rparr>"
    and v: "view ?s0 = (JNull, True, None)"
    by (simp_all add: example_defs hook_defs Let_def)
  from teardown_cancels_in_flight [OF a, of post1 "[Execute None None 0]"]
  have "(\<forall>c t. pending ?s0 c = Some t \<longrightarrow> aborted ?s0 c)"
    and "view (run post1 ?after ?s0) = view ?s0"
    and "cacheRef (run post1 ?after ?s0) = cacheRef ?s0"
    unfolding Let_def by blast+
  with p v show ?thesis
    unfolding Let_def by auto
qed

text \<open>
  C9. The cache key, when \<open>JSON.stringify\<close> returns one, is the URL, a hyphen and the
  serialised options, and two different
  pairs of URL and options can have the same key: the serialisation leaves out a
  property whose value is \<open>undefined\<close>, so the options with such a \<open>headers\<close> property
  and the empty options give one key for the same URL. An instance that has cached the
  payload of the first pair serves it to a call with the second pair, without a call
  of \<open>fetch\<close>.
\<close>

theorem cache_key_collision:
  "(\<forall>u opts. (\<exists>err. stringify (JObj opts) = Inl err \<and> cacheKey u opts = Inl err)
              \<or> (\<exists>t. stringify (JObj opts) = Inr (Some t) \<and> cacheKey u opts = Inr (u @ ''-'' @ t)))
   \<and> (\<exists>u1 o1 u2 o2.
        (u1, o1) \<noteq> (u2, o2)
      \<and> cacheKey u1 o1 = cacheKey u2 o2
      \<and> (let p = \<lparr>url = u1, options = o1, immediate = False, cacheTime = default_cacheTime\<rparr>;
              s = run p [Execute None None 0,
                         FetchSettled 0 (Resolves (ok_response (JStr ''first''))),
                         JsonSettled 0 10] initial_state;
              r = execute p (Some u2) (Some o2) 20 s
          in length (fetch_calls s) = 1
           \<and> fst r = Returned (Success (JStr ''first''))
           \<and> data (snd r) = JStr ''first''
           \<and> length (fetch_calls (snd r)) = 1))"
proof (intro conjI allI)
  show "(\<exists>err. stringify (JObj opts) = Inl err \<and> cacheKey u opts = Inl err)
      \<or> (\<exists>t. stringify (JObj opts) = Inr (Some t) \<and> cacheKey u opts = Inr (u @ ''-'' @ t))"
    for u opts
    by (simp add: cacheKey_def template_str_def split: sum.splits)
next
  let ?u = "''/api/posts''"
  let ?o1 = "[(''headers'', JUndefined)]"
  let ?p = "\<lparr>url = ?u, options = ?o1, immediate = False, cacheTime = default_cacheTime\<rparr>"
  have k: "cacheKey ?u ?o1 = Inr ''/api/posts-{}''" "cacheKey ?u [] = Inr ''/api/posts-{}''"
    by (simp_all add: key_defs)
  define p where "p = ?p"
  define s where "s = run p [Execute None None 0,
                     FetchSettled 0 (Resolves (ok_response (JStr ''first''))),
                     JsonSettled 0 10] initial_state"
  have pf: "url p = ?u" "options p = ?o1" "cacheTime p = 300000"
    by (simp_all add: p_def default_cacheTime_def)
  have c: "cacheRef s ''/api/posts-{}'' = Some \<lparr>entry_data = JStr ''first'', timestamp = 10\<rparr>"
    and l: "length (fetch_calls s) = 1"
    by (simp_all add: s_def pf k ok_response_def hook_defs Let_def)
  have "20 - timestamp \<lparr>entry_data = JStr ''first'', timestamp = 10\<rparr> < cacheTime p"
    by (simp add: pf)
  from execute_hit [OF k(2) c this]
  have r: "execute p (Some ?u) (Some []) 20 s
      = (Returned (Success (JStr ''first'')),
         (new_controller (abort_current s))\<lparr>data := JStr ''first'', error := None\<rparr>)"
    by simp
  have ex:
    "(let p = ?p;
          s = run p [Execute None None 0,
                     FetchSettled 0 (Resolves (ok_response (JStr ''first''))),
                     JsonSettled 0 10] initial_state;
          r = execute p (Some ?u) (Some []) 20 s
      in length (fetch_calls s) = 1
       \<and> fst r = Returned (Success (JStr ''first''))
       \<and> data (snd r) = JStr ''first''
       \<and> length (fetch_calls (snd r)) = 1)"
    unfolding Let_def p_def [symmetric] s_def [symmetric] r using l by simp
  show "\<exists>u1 o1 u2 o2.
        (u1, o1) \<noteq> (u2, o2)
      \<and> cacheKey u1 o1 = cacheKey u2 o2
      \<and> (let p = \<lparr>url = u1, options = o1, immediate = False, cacheTime = default_cacheTime\<rparr>;
              s = run p [Execute None None 0,
                         FetchSettled 0 (Resolves (ok_response (JStr ''first''))),
                         JsonSettled 0 10] initial_state;
              r = execute p (Some u2) (Some o2) 20 s
          in length (fetch_calls s) = 1
           \<and> fst r = Returned (Success (JStr ''first''))
           \<and> data (snd r) = JStr ''first''
           \<and> length (fetch_calls (snd r)) = 1)"
    by (rule exI [where x = ?u], rule exI [where x = ?o1],
        rule exI [where x = ?u], rule exI [where x = "[]"])
       (intro conjI, simp, simp add: k, rule ex)
qed

text \<open>
  C10. \<open>usePost\<close>, \<open>usePut\<close> and \<open>useDelete\<close> build the instance with \<open>immediate\<close> false
  and with their method written over the \<open>method\<close> of the given options, every other
  option kept. The state after creation is the initial state: no call of \<open>fetch\<close> was
  made, and none is made by any sequence of events that contains no call of \<open>execute\<close>
  or of \<open>refetch\<close> (which calls \<open>execute\<close>). A call of \<open>execute\<close> then makes one request,
  for the URL of the hook with its method (none when \<open>JSON.stringify\<close> throws on the
  options).
\<close>

theorem method_hooks_do_not_fetch_on_creation:
  assumes "(hook, m) \<in> {(usePost, ''POST''), (usePut, ''PUT''), (useDelete, ''DELETE'')}"
  shows "immediate (fst (hook u opts now)) = False
     \<and> url (fst (hook u opts now)) = u
     \<and> get_prop (options (fst (hook u opts now))) ''method'' = JStr m
     \<and> (\<forall>k. k \<noteq> ''method'' \<longrightarrow> get_prop (options (fst (hook u opts now))) k = get_prop opts k)
     \<and> snd (hook u opts now) = initial_state
     \<and> fetch_calls (snd (hook u opts now)) = []
     \<and> (\<forall>evs. (\<forall>ev \<in> set evs. \<not> is_call ev) \<longrightarrow>
           fetch_calls (run (fst (hook u opts now)) evs (snd (hook u opts now))) = [])
     \<and> (\<forall>now'. map (\<lambda>r. (req_url r, get_prop (req_options r) ''method''))
            (fetch_calls (run (fst (hook u opts now)) [Execute None None now'] (snd (hook u opts now))))
          = (case cacheKey u (set_prop ''method'' (JStr m) opts) of
               Inl err \<Rightarrow> []
             | Inr key \<Rightarrow> [(u, JStr m)]))"
proof -
  have init: "fetch_calls initial_state = []" "cacheRef initial_state = Map.empty"
    "next_controller initial_state = 0"
    by (simp_all add: initial_state_def)
  have ex: "map (\<lambda>r. (req_url r, get_prop (req_options r) ''method''))
      (fetch_calls (snd (execute \<lparr>url = u, options = set_prop ''method'' (JStr m) opts,
             immediate = False, cacheTime = default_cacheTime\<rparr> None None now' initial_state)))
      = (case cacheKey u (set_prop ''method'' (JStr m) opts) of
           Inl err \<Rightarrow> []
         | Inr key \<Rightarrow> [(u, JStr m)])" for now' m
  proof (cases "cacheKey u (set_prop ''method'' (JStr m) opts)")
    case (Inl err)
    then show ?thesis
      by (simp add: execute_defaults [of _ None None] execute_throws [OF Inl] init)
  next
    case (Inr key)
    then show ?thesis
      by (simp add: execute_defaults [of _ None None] execute_miss [OF Inr] start_fetch_eq init
            build_request_def get_prop_set_prop)
  qed
  let ?p = "\<lparr>url = u, options = set_prop ''method'' (JStr m) opts, immediate = False,
             cacheTime = default_cacheTime\<rparr>"
  from assms have h: "hook u opts now = (?p, initial_state)"
    by (auto simp: usePost_def usePut_def useDelete_def useApi_def Let_def)
  have "fetch_calls (run ?p evs initial_state) = []" if "\<forall>ev \<in> set evs. \<not> is_call ev" for evs
    using that by (simp add: run_no_call_fetch_calls init)
  moreover have "get_prop (set_prop ''method'' (JStr m) opts) k = get_prop opts k"
    if "k \<noteq> ''method''" for k
    using that by (simp add: get_prop_set_prop)
  ultimately show ?thesis
    unfolding h by (simp add: get_prop_set_prop init ex)
qed

theorem method_hooks_do_not_fetch_on_creation_witness:
  "(let h = usePost ''/api/posts'' [(''method'', JStr ''GET''), (''credentials'', JStr ''include'')] 0
    in immediate (fst h) = False
     \<and> options (fst h) = [(''method'', JStr ''POST''), (''credentials'', JStr ''include'')]
     \<and> get_prop (options (fst h)) ''method'' = JStr ''POST''
     \<and> get_prop (options (fst h)) ''credentials'' = JStr ''include''
     \<and> fetch_calls (run (fst h) [FetchSettled 0 (Resolves not_found), Cleanup] (snd h)) = []
     \<and> map (\<lambda>r. (req_url r, get_prop (req_options r) ''method''))
           (fetch_calls (run (fst h) [Execute None None 5] (snd h)))
         = [(''/api/posts'', JStr ''POST'')])"
proof -
  let ?opts = "[(''method'', JStr ''GET''), (''credentials'', JStr ''include'')]"
  define h where "h = usePost ''/api/posts'' ?opts 0"
  have m: "(usePost, ''POST'') \<in> {(usePost, ''POST''), (usePut, ''PUT''), (useDelete, ''DELETE'')}"
    by simp
  have n: "\<forall>ev \<in> set [FetchSettled 0 (Resolves not_found), Cleanup]. \<not> is_call ev"
    by simp
  have "\<exists>key. cacheKey ''/api/posts'' (set_prop ''method'' (JStr ''POST'') ?opts) = Inr key"
    by (simp add: cacheKey_def)
  then obtain key
    where k: "cacheKey ''/api/posts'' (set_prop ''method'' (JStr ''POST'') ?opts) = Inr key" ..
  have o: "options (fst h) = [(''method'', JStr ''POST''), (''credentials'', JStr ''include'')]"
    by (simp add: h_def usePost_def useApi_def Let_def)
  note T = method_hooks_do_not_fetch_on_creation [OF m, of "''/api/posts''" ?opts 0,
      folded h_def]
  note R = T [THEN conjunct2, THEN conjunct2]
  note R' = R [THEN conjunct2, THEN conjunct2, THEN conjunct2, THEN conjunct2]
  have t1: "immediate (fst h) = False"
    by (rule T [THEN conjunct1])
  have t2: "get_prop (options (fst h)) ''method'' = JStr ''POST''"
    by (rule R [THEN conjunct1])
  have t3: "get_prop (options (fst h)) ''credentials'' = JStr ''include''"
    using R [THEN conjunct2, THEN conjunct1, rule_format, of "''credentials''"]
    by (simp add: get_prop_def)
  have t4: "fetch_calls (run (fst h) [FetchSettled 0 (Resolves not_found), Cleanup] (snd h)) = []"
    by (rule R' [THEN conjunct1, THEN spec, THEN mp, OF n])
  have t5: "map (\<lambda>r. (req_url r, get_prop (req_options r) ''method''))
           (fetch_calls (run (fst h) [Execute None None 5] (snd h)))
         = [(''/api/posts'', JStr ''POST'')]"
    using R' [THEN conjunct2, rule_format, of 5] unfolding k by simp
  from t1 o t2 t3 t4 t5 show ?thesis
    unfolding Let_def h_def [symmetric] by (intro conjI)
qed

end
